theory Spec2Isabelle
  imports Complex_Main "HOL-Library.Log_Nat" "HOL-Library.Word"
begin

section \<open>Numbers\<close>

text \<open>
  A TypeScript \<open>number\<close> is an IEEE 754 binary64 value. \<open>Finite\<close> carries the real
  number that a finite value denotes; the two zeros are not told apart. Every arithmetic
  operation computes the exact real result and rounds it with \<open>round64\<close>: to the nearest
  value with a 53-bit significand, ties to the even significand, with the exponent of the
  last place not below \<open>- 1074\<close> (gradual underflow) and with overflow to infinity.
  \<open>exponentOf x\<close> is the integer \<open>e\<close> with \<open>2 ^ e \<le> x < 2 ^ (e + 1)\<close>.
\<close>

datatype number = Finite real | PosInfinity | NegInfinity | NaN

definition roundEven :: "real \<Rightarrow> int" where
  "roundEven m =
     (let f = \<lfloor>m\<rfloor>; d = m - of_int f
      in if d < 1 / 2 then f else if 1 / 2 < d then f + 1 else if even f then f else f + 1)"

definition exponentOf :: "real \<Rightarrow> int" where
  "exponentOf x = (if 1 \<le> x then bitlen \<lfloor>x\<rfloor> - 1 else - bitlen (\<lceil>1 / x\<rceil> - 1))"

definition roundPositive :: "real \<Rightarrow> number" where
  "roundPositive x =
     (let e = max (exponentOf x) (- 1022);
          q = 2 powi (e - 52);
          y = of_int (roundEven (x / q)) * q
      in if 2 powi 1024 \<le> y then PosInfinity else Finite y)"

definition negate :: "number \<Rightarrow> number" where
  "negate n = (case n of Finite a \<Rightarrow> Finite (- a) | PosInfinity \<Rightarrow> NegInfinity
               | NegInfinity \<Rightarrow> PosInfinity | NaN \<Rightarrow> NaN)"

definition round64 :: "real \<Rightarrow> number" where
  "round64 x = (if x = 0 then Finite 0 else if 0 < x then roundPositive x
                else negate (roundPositive (- x)))"

text \<open>The operators \<open>*\<close>, \<open>/\<close>, \<open>+\<close>, \<open>-\<close>, \<open>Math.min\<close>, \<open>\<le>\<close> and \<open><\<close>.\<close>

fun jsMul :: "number \<Rightarrow> number \<Rightarrow> number" where
  "jsMul (Finite a) (Finite b) = round64 (a * b)"
| "jsMul (Finite a) PosInfinity = (if a = 0 then NaN else if 0 < a then PosInfinity else NegInfinity)"
| "jsMul (Finite a) NegInfinity = (if a = 0 then NaN else if 0 < a then NegInfinity else PosInfinity)"
| "jsMul PosInfinity (Finite b) = (if b = 0 then NaN else if 0 < b then PosInfinity else NegInfinity)"
| "jsMul NegInfinity (Finite b) = (if b = 0 then NaN else if 0 < b then NegInfinity else PosInfinity)"
| "jsMul PosInfinity PosInfinity = PosInfinity"
| "jsMul PosInfinity NegInfinity = NegInfinity"
| "jsMul NegInfinity PosInfinity = NegInfinity"
| "jsMul NegInfinity NegInfinity = PosInfinity"
| "jsMul NaN _ = NaN"
| "jsMul _ NaN = NaN"

fun jsDiv :: "number \<Rightarrow> number \<Rightarrow> number" where
  "jsDiv (Finite a) (Finite b) =
     (if b = 0 then (if a = 0 then NaN else if 0 < a then PosInfinity else NegInfinity)
      else round64 (a / b))"
| "jsDiv (Finite a) PosInfinity = Finite 0"
| "jsDiv (Finite a) NegInfinity = Finite 0"
| "jsDiv PosInfinity (Finite b) = (if 0 \<le> b then PosInfinity else NegInfinity)"
| "jsDiv NegInfinity (Finite b) = (if 0 \<le> b then NegInfinity else PosInfinity)"
| "jsDiv PosInfinity PosInfinity = NaN"
| "jsDiv PosInfinity NegInfinity = NaN"
| "jsDiv NegInfinity PosInfinity = NaN"
| "jsDiv NegInfinity NegInfinity = NaN"
| "jsDiv NaN _ = NaN"
| "jsDiv _ NaN = NaN"

fun jsAdd :: "number \<Rightarrow> number \<Rightarrow> number" where
  "jsAdd (Finite a) (Finite b) = round64 (a + b)"
| "jsAdd (Finite a) PosInfinity = PosInfinity"
| "jsAdd (Finite a) NegInfinity = NegInfinity"
| "jsAdd PosInfinity (Finite b) = PosInfinity"
| "jsAdd NegInfinity (Finite b) = NegInfinity"
| "jsAdd PosInfinity PosInfinity = PosInfinity"
| "jsAdd PosInfinity NegInfinity = NaN"
| "jsAdd NegInfinity PosInfinity = NaN"
| "jsAdd NegInfinity NegInfinity = NegInfinity"
| "jsAdd NaN _ = NaN"
| "jsAdd _ NaN = NaN"

definition jsSub :: "number \<Rightarrow> number \<Rightarrow> number" where
  "jsSub a b = jsAdd a (negate b)"

fun jsMin :: "number \<Rightarrow> number \<Rightarrow> number" where
  "jsMin (Finite a) (Finite b) = Finite (min a b)"
| "jsMin (Finite a) PosInfinity = Finite a"
| "jsMin PosInfinity (Finite b) = Finite b"
| "jsMin PosInfinity PosInfinity = PosInfinity"
| "jsMin NegInfinity (Finite b) = NegInfinity"
| "jsMin NegInfinity PosInfinity = NegInfinity"
| "jsMin NegInfinity NegInfinity = NegInfinity"
| "jsMin (Finite a) NegInfinity = NegInfinity"
| "jsMin PosInfinity NegInfinity = NegInfinity"
| "jsMin NaN _ = NaN"
| "jsMin _ NaN = NaN"

fun jsLessEq :: "number \<Rightarrow> number \<Rightarrow> bool" where
  "jsLessEq (Finite a) (Finite b) = (a \<le> b)"
| "jsLessEq (Finite a) PosInfinity = True"
| "jsLessEq (Finite a) NegInfinity = False"
| "jsLessEq PosInfinity (Finite b) = False"
| "jsLessEq NegInfinity (Finite b) = True"
| "jsLessEq PosInfinity PosInfinity = True"
| "jsLessEq PosInfinity NegInfinity = False"
| "jsLessEq NegInfinity PosInfinity = True"
| "jsLessEq NegInfinity NegInfinity = True"
| "jsLessEq NaN _ = False"
| "jsLessEq _ NaN = False"

fun jsLess :: "number \<Rightarrow> number \<Rightarrow> bool" where
  "jsLess (Finite a) (Finite b) = (a < b)"
| "jsLess (Finite a) PosInfinity = True"
| "jsLess (Finite a) NegInfinity = False"
| "jsLess PosInfinity (Finite b) = False"
| "jsLess NegInfinity (Finite b) = True"
| "jsLess PosInfinity PosInfinity = False"
| "jsLess PosInfinity NegInfinity = False"
| "jsLess NegInfinity PosInfinity = True"
| "jsLess NegInfinity NegInfinity = False"
| "jsLess NaN _ = False"
| "jsLess _ NaN = False"

section \<open>Strings\<close>

text \<open>
  A JavaScript string is a sequence of UTF-16 code units. A character outside the Basic
  Multilingual Plane takes two code units, a high surrogate followed by a low surrogate.
  \<open>js\<close> gives the string of a literal whose characters are all below \<open>U+0100\<close>.
\<close>

type_synonym jsstring = "16 word list"

definition js :: "string \<Rightarrow> jsstring" where
  "js s = map of_char s"

section \<open>Page geometry constants\<close>

definition MARGIN :: number where
  "MARGIN = Finite 72"

definition PAGE_WIDTH :: number where
  "PAGE_WIDTH = Finite 1920"

definition PAGE_HEIGHT :: number where
  "PAGE_HEIGHT = Finite 1080"

definition CAPTION_FONT_SIZE :: number where
  "CAPTION_FONT_SIZE = Finite 26"

definition TITLE_FONT_SIZE :: number where
  "TITLE_FONT_SIZE = Finite 48"

definition FONT :: jsstring where
  "FONT = js ''Helvetica''"

section \<open>Layout engine\<close>

record ImageDimensions =
  width :: number
  height :: number

definition calculateImageSize :: "number \<Rightarrow> number \<Rightarrow> number \<Rightarrow> number \<Rightarrow> ImageDimensions" where
  "calculateImageSize originalWidth originalHeight maxWidth maxHeight =
     (let widthRatio = jsDiv maxWidth originalWidth;
          heightRatio = jsDiv maxHeight originalHeight;
          scaleFactor = jsMin widthRatio heightRatio
      in \<lparr> width = jsMul originalWidth scaleFactor, height = jsMul originalHeight scaleFactor \<rparr>)"

section \<open>Configuration data\<close>

text \<open>
  The types of \<open>types.ts\<close>. An optional caption is an optional string. The list of images
  holds optional entries because the assembler tests every element for being undefined
  before it uses it.
\<close>

record ImageData =
  src :: jsstring
  caption :: "jsstring option"

record SlideshowConfig =
  title :: jsstring
  subtitle :: jsstring
  images :: "ImageData option list"

text \<open>JavaScript truthiness of a string, of an optional string and of an optional number.\<close>

definition truthyString :: "jsstring \<Rightarrow> bool" where
  "truthyString s = (s \<noteq> [])"

definition truthyOptString :: "jsstring option \<Rightarrow> bool" where
  "truthyOptString s = (case s of None \<Rightarrow> False | Some t \<Rightarrow> truthyString t)"

definition truthyNumber :: "number \<Rightarrow> bool" where
  "truthyNumber n = (case n of Finite v \<Rightarrow> v \<noteq> 0 | PosInfinity \<Rightarrow> True
                     | NegInfinity \<Rightarrow> True | NaN \<Rightarrow> False)"

definition truthyOptNumber :: "number option \<Rightarrow> bool" where
  "truthyOptNumber n = (case n of None \<Rightarrow> False | Some v \<Rightarrow> truthyNumber v)"

section \<open>Observable effects\<close>

text \<open>
  The PDF document is the stream of commands sent to the writer. A new document has its
  first page open; \<open>AddPage\<close> is the page break that the generator asks for. Text
  commands carry the font size and family that are set just before them.
\<close>

record TextOptions =
  textWidth :: number
  textAlign :: jsstring

record ImageOptions =
  fit :: "number \<times> number"
  align :: jsstring
  valign :: jsstring

datatype DocCommand =
    isDrawText: DrawText (fontSize: number) (fontFamily: jsstring) (content: jsstring)
             (textX: number) (textY: number) (textOptions: TextOptions)
  | isDrawImage: DrawImage (imageSrc: jsstring) (imageX: number) (imageY: number) (imageOptions: ImageOptions)
  | AddPage

section \<open>External collaborators\<close>

text \<open>
  The libraries the generator calls are parameters of the model. \<open>existsSync\<close> is the
  file-system existence test. \<open>sharpMetadata\<close> is the image metadata reader: it rejects
  with an error or resolves with a width and a height, each a number or undefined.
  \<open>pdfImage\<close> tells whether the PDF writer's \<open>image\<close> call throws for a path.
  \<open>textBreaks\<close> is the layout of the PDF writer for a text command with a width: the
  number of times the wrapped text passes the bottom margin of the page, where the writer
  starts a new page by itself and continues the text there (\<open>0\<close> when the text fits).
  \<open>streamResult\<close> is the fate of the write stream to a path: it emits \<open>finish\<close>; or
  the file cannot be opened and the stream emits \<open>error\<close> as soon as the event loop
  runs; or it emits \<open>error\<close> only after the document has been ended. \<open>now\<close> is the
  local time that \<open>new Date()\<close> reads. The answers do not change during a run. The
  constructor of the document and its text and page-break calls are taken not to throw.
\<close>

datatype error =
    CouldNotReadImageDimensions
  | CouldNotGetDimensionsFor jsstring
  | LibraryError jsstring

record Metadata =
  metaWidth :: "number option"
  metaHeight :: "number option"

record DateTime =
  fullYear :: int
  month :: nat
  date :: nat
  hours :: nat
  minutes :: nat
  seconds :: nat

datatype StreamOutcome = Finish | ErrorOnOpen error | ErrorAfterEnd error

record Env =
  existsSync :: "jsstring \<Rightarrow> bool"
  sharpMetadata :: "jsstring \<Rightarrow> error + Metadata"
  pdfImage :: "jsstring \<Rightarrow> error option"
  textBreaks :: "DocCommand \<Rightarrow> nat"
  streamResult :: "jsstring \<Rightarrow> StreamOutcome"
  now :: DateTime

text \<open>One constructor for each console call of the source, with the values it interpolates.
  \<open>UncaughtError\<close> is the report of the runtime when an \<open>error\<close> event has no listener.\<close>

datatype ConsoleLine =
    LogBanner
  | LogBannerRule
  | ErrorNoImages
  | LogTitle jsstring
  | LogSubtitle jsstring
  | LogImagesToProcess nat
  | LogOutputFile jsstring
  | LogBlank
  | WarnUndefinedEntry nat
  | WarnNotFound jsstring
  | ErrorReadingImage jsstring error
  | ErrorAddingImageSlide jsstring error
  | LogPdfCreated jsstring
  | ErrorCreatingPdf error
  | LogSuccess
  | LogFile jsstring
  | LogImagesProcessed nat
  | LogTitleSlideIncluded
  | LogFailed
  | UncaughtError error

datatype FileIO =
    ExistsSync jsstring
  | ReadMetadata jsstring
  | ReadImage jsstring
  | CreateWriteStream jsstring

text \<open>
  The state of a run: the commands sent to the document, the console, the trace of file
  accesses, the files written, and the \<open>error\<close> event of the write stream that the event
  loop will deliver at the next \<open>await\<close>, if there is one.
\<close>

record State =
  doc :: "DocCommand list"
  console :: "ConsoleLine list"
  fileio :: "FileIO list"
  written :: "(jsstring \<times> DocCommand list) list"
  pendingError :: "error option"

definition emptyState :: State where
  "emptyState = \<lparr> doc = [], console = [], fileio = [], written = [], pendingError = None \<rparr>"

definition emit :: "DocCommand \<Rightarrow> State \<Rightarrow> State" where
  "emit c st = st \<lparr> doc := doc st @ [c] \<rparr>"

definition logLine :: "ConsoleLine \<Rightarrow> State \<Rightarrow> State" where
  "logLine l st = st \<lparr> console := console st @ [l] \<rparr>"

definition fileAccess :: "FileIO \<Rightarrow> State \<Rightarrow> State" where
  "fileAccess e st = st \<lparr> fileio := fileio st @ [e] \<rparr>"

text \<open>
  A call either returns, or the process dies while the call awaits, from an \<open>error\<close>
  event that is emitted when no listener is attached.
\<close>

datatype 'a Outcome = Returned 'a | Uncaught error

text \<open>
  The physical pages of a command stream. A page break starts a new page. A text command
  that the writer breaks \<open>k\<close> times lies on the page it starts on and on \<open>k\<close> further
  pages, and the commands after it go on the last of these.
\<close>

fun pagesOf :: "Env \<Rightarrow> DocCommand list \<Rightarrow> DocCommand list list" where
  "pagesOf env [] = [[]]"
| "pagesOf env (AddPage # cs) = [] # pagesOf env cs"
| "pagesOf env (DrawImage p x y opts # cs) =
     (DrawImage p x y opts # hd (pagesOf env cs)) # tl (pagesOf env cs)"
| "pagesOf env (DrawText fs ff t x y opts # cs) =
     replicate (textBreaks env (DrawText fs ff t x y opts)) [DrawText fs ff t x y opts]
     @ ((DrawText fs ff t x y opts # hd (pagesOf env cs)) # tl (pagesOf env cs))"

section \<open>Reading image dimensions\<close>

definition getImageDimensions ::
    "Env \<Rightarrow> jsstring \<Rightarrow> State \<Rightarrow> ImageDimensions option Outcome \<times> State" where
  "getImageDimensions env imagePath st =
     (let st1 = fileAccess (ReadMetadata imagePath) st
      in case pendingError st1 of
           Some e \<Rightarrow> (Uncaught e, st1)
         | None \<Rightarrow>
             (let attempt =
                    (case sharpMetadata env imagePath of
                       Inl e \<Rightarrow> Inl e
                     | Inr metadata \<Rightarrow>
                         if \<not> truthyOptNumber (metaWidth metadata)
                            \<or> \<not> truthyOptNumber (metaHeight metadata)
                         then Inl CouldNotReadImageDimensions
                         else (case (metaWidth metadata, metaHeight metadata) of
                                 (Some w, Some h) \<Rightarrow> Inr \<lparr> width = w, height = h \<rparr>
                               | _ \<Rightarrow> Inl CouldNotReadImageDimensions))
              in case attempt of
                   Inl e \<Rightarrow> (Returned None, logLine (ErrorReadingImage imagePath e) st1)
                 | Inr dimensions \<Rightarrow> (Returned (Some dimensions), st1)))"

section \<open>Title slide and image slide\<close>

definition addTitleSlide :: "jsstring \<Rightarrow> jsstring option \<Rightarrow> State \<Rightarrow> State" where
  "addTitleSlide ttl sub st =
     (let availableWidth = jsSub PAGE_WIDTH (jsMul (Finite 2) MARGIN);
          centerX = jsDiv PAGE_WIDTH (Finite 2);
          centerY = jsDiv PAGE_HEIGHT (Finite 2);
          titleY = (if truthyOptString sub then jsSub centerY (Finite 80)
                    else jsSub centerY (Finite 50));
          subtitleY = jsSub centerY (Finite 20);
          st1 = emit (DrawText TITLE_FONT_SIZE FONT ttl MARGIN titleY
                        \<lparr> textWidth = availableWidth, textAlign = js ''center'' \<rparr>) st
      in case sub of
           None \<Rightarrow> st1
         | Some s \<Rightarrow>
             if truthyString s
             then emit (DrawText TITLE_FONT_SIZE FONT s MARGIN subtitleY
                          \<lparr> textWidth = availableWidth, textAlign = js ''center'' \<rparr>) st1
             else st1)"

definition addImageSlide :: "Env \<Rightarrow> ImageData \<Rightarrow> State \<Rightarrow> unit Outcome \<times> State" where
  "addImageSlide env imageData st =
     (case getImageDimensions env (src imageData) st of
        (Uncaught e, st1) \<Rightarrow> (Uncaught e, st1)
      | (Returned None, st1) \<Rightarrow>
          (Returned (),
           logLine (ErrorAddingImageSlide (src imageData)
                      (CouldNotGetDimensionsFor (src imageData))) st1)
      | (Returned (Some dimensions), st1) \<Rightarrow>
          (let availableWidth = jsSub PAGE_WIDTH (jsMul (Finite 2) MARGIN);
               availableHeight0 = jsSub PAGE_HEIGHT (jsMul (Finite 2) MARGIN);
               captionHeight = Finite 80;
               availableHeight = jsSub availableHeight0 captionHeight;
               imageX = MARGIN;
               imageY = MARGIN;
               st2 = fileAccess (ReadImage (src imageData)) st1
           in case pdfImage env (src imageData) of
                Some e \<Rightarrow> (Returned (), logLine (ErrorAddingImageSlide (src imageData) e) st2)
              | None \<Rightarrow>
                  (let st3 = emit (DrawImage (src imageData) imageX imageY
                                     \<lparr> fit = (availableWidth, availableHeight),
                                       align = js ''center'', valign = js ''center'' \<rparr>) st2;
                       imageSize = calculateImageSize (width dimensions) (height dimensions)
                                     availableWidth availableHeight
                   in case caption imageData of
                        None \<Rightarrow> (Returned (), st3)
                      | Some c \<Rightarrow>
                          if truthyString c
                          then (let captionY = jsAdd (jsAdd imageY (height imageSize)) (Finite 30)
                                in (Returned (),
                                    emit (DrawText CAPTION_FONT_SIZE FONT c MARGIN captionY
                                            \<lparr> textWidth = availableWidth,
                                              textAlign = js ''center'' \<rparr>) st3))
                          else (Returned (), st3))))"

section \<open>The assembler\<close>

text \<open>The body of the loop over the image list, at index \<open>i\<close>.\<close>

definition imageIteration :: "Env \<Rightarrow> SlideshowConfig \<Rightarrow> nat \<Rightarrow> State \<Rightarrow> unit Outcome \<times> State" where
  "imageIteration env config i st =
     (case images config ! i of
        None \<Rightarrow> (Returned (), logLine (WarnUndefinedEntry i) st)
      | Some imageData \<Rightarrow>
          (let st1 = fileAccess (ExistsSync (src imageData)) st
           in if \<not> existsSync env (src imageData)
              then (Returned (), logLine (WarnNotFound (src imageData)) st1)
              else (case addImageSlide env imageData st1 of
                      (Uncaught e, st2) \<Rightarrow> (Uncaught e, st2)
                    | (Returned u, st2) \<Rightarrow>
                        (Returned (),
                         if int i < int (length (images config)) - 1
                         then emit AddPage st2
                         else st2))))"

function processImages :: "Env \<Rightarrow> SlideshowConfig \<Rightarrow> nat \<Rightarrow> State \<Rightarrow> unit Outcome \<times> State" where
  "processImages env config i st =
     (if i < length (images config)
      then (case imageIteration env config i st of
              (Uncaught e, st1) \<Rightarrow> (Uncaught e, st1)
            | (Returned u, st1) \<Rightarrow> processImages env config (i + 1) st1)
      else (Returned (), st))"
  by pat_completeness auto
termination
  by (relation "measure (\<lambda>(env, config, i, st). length (images config) - i)") auto

declare processImages.simps [simp del]

text \<open>
  The listeners for \<open>finish\<close> and \<open>error\<close> are attached after the loop. An \<open>error\<close>
  event that is pending while the loop awaits an image slide finds no listener; one that is
  still pending after the loop, or that comes after the end of the document, rejects the
  promise and is caught.
\<close>

definition createPdfSlideshow ::
    "Env \<Rightarrow> SlideshowConfig \<Rightarrow> jsstring \<Rightarrow> State \<Rightarrow> bool Outcome \<times> State" where
  "createPdfSlideshow env config outputFilename st =
     (let st1 = st \<lparr> doc := [] \<rparr>;
          st2 = (fileAccess (CreateWriteStream (js ''./dist/'' @ outputFilename)) st1)
                  \<lparr> pendingError :=
                      (case streamResult env (js ''./dist/'' @ outputFilename) of
                         ErrorOnOpen e \<Rightarrow> Some e | _ \<Rightarrow> None) \<rparr>;
          st3 = (if truthyString (title config)
                 then emit AddPage (addTitleSlide (title config) (Some (subtitle config)) st2)
                 else st2)
      in case processImages env config 0 st3 of
           (Uncaught e, st4) \<Rightarrow> (Uncaught e, st4)
         | (Returned u, st4) \<Rightarrow>
             (case streamResult env (js ''./dist/'' @ outputFilename) of
                Finish \<Rightarrow>
                  (Returned True,
                   logLine (LogPdfCreated outputFilename)
                     (st4 \<lparr> written := written st4 @ [(js ''./dist/'' @ outputFilename, doc st4)] \<rparr>))
              | ErrorOnOpen e \<Rightarrow>
                  (Returned False, logLine (ErrorCreatingPdf e) (st4 \<lparr> pendingError := None \<rparr>))
              | ErrorAfterEnd e \<Rightarrow> (Returned False, logLine (ErrorCreatingPdf e) st4)))"

section \<open>File name and entry point\<close>

definition digitChar :: "nat \<Rightarrow> 16 word" where
  "digitChar d = js ''0123456789'' ! d"

function natToString :: "nat \<Rightarrow> jsstring" where
  "natToString n = (if n < 10 then [digitChar n] else natToString (n div 10) @ [digitChar (n mod 10)])"
  by pat_completeness auto
termination
  by (relation "measure (\<lambda>n. n)") auto

declare natToString.simps [simp del]

definition intToString :: "int \<Rightarrow> jsstring" where
  "intToString i = (if i < 0 then js ''-'' @ natToString (nat (- i)) else natToString (nat i))"

definition padStart :: "nat \<Rightarrow> jsstring \<Rightarrow> jsstring \<Rightarrow> jsstring" where
  "padStart targetLength padString s =
     (if targetLength \<le> length s \<or> padString = [] then s
      else take (targetLength - length s)
             (concat (replicate (targetLength - length s) padString)) @ s)"

definition getTimestamp :: "Env \<Rightarrow> jsstring" where
  "getTimestamp env =
     (let n = now env
      in intToString (fullYear n)
         @ padStart 2 (js ''0'') (natToString (month n + 1))
         @ padStart 2 (js ''0'') (natToString (date n))
         @ js ''_''
         @ padStart 2 (js ''0'') (natToString (hours n))
         @ padStart 2 (js ''0'') (natToString (minutes n))
         @ padStart 2 (js ''0'') (natToString (seconds n)))"

text \<open>
  The regular expression \<open>/[^a-zA-Z0-9]/g\<close> has no \<open>u\<close> flag: it matches single code
  units, and \<open>replace\<close> puts the string \<open>_\<close> in the place of every match.
\<close>

definition isAlnum :: "16 word \<Rightarrow> bool" where
  "isAlnum c =
     (let k = unat c
      in (97 \<le> k \<and> k \<le> 122) \<or> (65 \<le> k \<and> k \<le> 90) \<or> (48 \<le> k \<and> k \<le> 57))"

definition replaceNonAlnum :: "jsstring \<Rightarrow> jsstring" where
  "replaceNonAlnum s = concat (map (\<lambda>c. if isAlnum c then [c] else js ''_'') s)"

text \<open>The three lines of \<open>main\<close> that build the name of the output file.\<close>

definition mainOutputFilename :: "Env \<Rightarrow> SlideshowConfig \<Rightarrow> jsstring" where
  "mainOutputFilename env SLIDESHOW =
     (let timestamp = getTimestamp env;
          baseName = (if truthyString (replaceNonAlnum (title SLIDESHOW))
                      then replaceNonAlnum (title SLIDESHOW) else js ''slideshow'');
          outputFilename = baseName @ js ''_'' @ timestamp @ js ''.pdf''
      in outputFilename)"

record Run =
  exitCode :: nat
  final :: State

definition main :: "Env \<Rightarrow> SlideshowConfig \<Rightarrow> Run" where
  "main env SLIDESHOW =
     (let st0 = logLine LogBannerRule (logLine LogBanner emptyState)
      in if images SLIDESHOW = []
         then \<lparr> exitCode = 1, final = logLine ErrorNoImages st0 \<rparr>
         else
           (let outputFilename = mainOutputFilename env SLIDESHOW;
                st1 = logLine (LogTitle (if truthyString (title SLIDESHOW)
                                         then title SLIDESHOW else js ''No title'')) st0;
                st2 = (if truthyString (subtitle SLIDESHOW)
                       then logLine (LogSubtitle (subtitle SLIDESHOW)) st1 else st1);
                st3 = logLine (LogImagesToProcess (length (images SLIDESHOW))) st2;
                st4 = logLine (LogOutputFile outputFilename) st3;
                st5 = logLine LogBlank st4
            in case createPdfSlideshow env SLIDESHOW outputFilename st5 of
                 (Returned success, st6) \<Rightarrow>
                   if success
                   then (let st7 = logLine LogSuccess st6;
                             st8 = logLine (LogFile outputFilename) st7;
                             st9 = logLine (LogImagesProcessed (length (images SLIDESHOW))) st8;
                             st10 = (if truthyString (title SLIDESHOW)
                                     then logLine LogTitleSlideIncluded st9 else st9)
                         in \<lparr> exitCode = 0, final = st10 \<rparr>)
                   else \<lparr> exitCode = 1, final = logLine LogFailed st6 \<rparr>
               | (Uncaught e, st6) \<Rightarrow> \<lparr> exitCode = 1, final = logLine (UncaughtError e) st6 \<rparr>))"

section \<open>Auxiliary definitions for the proofs\<close>

text \<open>
  \<open>roundValue x\<close> is the real number that a positive \<open>x\<close> rounds to, before the test
  for overflow. \<open>unitRoundoff\<close> is the largest relative error of one rounding,
  \<open>2 ^ - 53\<close>. \<open>inRange a x\<close> says that \<open>x\<close> lies between \<open>2 ^ - a\<close> and
  \<open>2 ^ a\<close>, and \<open>nonNegative\<close> that a number is neither negative nor NaN.
\<close>

definition roundValue :: "real \<Rightarrow> real" where
  "roundValue x =
     (let e = max (exponentOf x) (- 1022); q = 2 powi (e - 52)
      in of_int (roundEven (x / q)) * q)"

definition unitRoundoff :: real where
  "unitRoundoff = 1 / 2 ^ 53"

definition inRange :: "nat \<Rightarrow> real \<Rightarrow> bool" where
  "inRange a x = (1 / 2 ^ a \<le> x \<and> x \<le> 2 ^ a)"

definition nonNegative :: "number \<Rightarrow> bool" where
  "nonNegative n = (case n of Finite a \<Rightarrow> 0 \<le> a | PosInfinity \<Rightarrow> True | NegInfinity \<Rightarrow> False | NaN \<Rightarrow> False)"

text \<open>
  Every operation of the assembler only appends to the command stream, the console and the
  file-access trace. \<open>appendState st d\<close> is the state \<open>st\<close> followed by the effects
  recorded in \<open>d\<close>.
\<close>

definition appendState :: "State \<Rightarrow> State \<Rightarrow> State" where
  "appendState st d =
     \<lparr> doc = doc st @ doc d, console = console st @ console d,
       fileio = fileio st @ fileio d, written = written st @ written d,
       pendingError = pendingError st \<rparr>"

text \<open>
  What one iteration of the loop adds to the command stream, to the console and to the
  file-access trace when no \<open>error\<close> event is pending, and the commands of the title
  slide.
\<close>

definition iterationDoc :: "Env \<Rightarrow> SlideshowConfig \<Rightarrow> nat \<Rightarrow> DocCommand list" where
  "iterationDoc env config i = doc (snd (imageIteration env config i emptyState))"

definition iterationConsole :: "Env \<Rightarrow> SlideshowConfig \<Rightarrow> nat \<Rightarrow> ConsoleLine list" where
  "iterationConsole env config i = console (snd (imageIteration env config i emptyState))"

definition iterationFileio :: "Env \<Rightarrow> SlideshowConfig \<Rightarrow> nat \<Rightarrow> FileIO list" where
  "iterationFileio env config i = fileio (snd (imageIteration env config i emptyState))"

definition slideDoc :: "Env \<Rightarrow> ImageData \<Rightarrow> DocCommand list" where
  "slideDoc env imageData = doc (snd (addImageSlide env imageData emptyState))"

definition titleDoc :: "SlideshowConfig \<Rightarrow> DocCommand list" where
  "titleDoc config = doc (addTitleSlide (title config) (Some (subtitle config)) emptyState)"

text \<open>
  An entry is present when it is defined and its file exists: these are the entries for
  which the loop calls and awaits \<open>addImageSlide\<close>. A dimension is missing when it
  is undefined, zero or NaN. An entry is valid and readable when it is present, the
  metadata reader resolves with a width and a height that are not missing, and the PDF
  writer accepts the image.
\<close>

definition noDimension :: "number option \<Rightarrow> bool" where
  "noDimension x = (x = None \<or> x = Some (Finite 0) \<or> x = Some NaN)"

definition present :: "Env \<Rightarrow> ImageData option \<Rightarrow> bool" where
  "present env entry =
     (case entry of None \<Rightarrow> False | Some imageData \<Rightarrow> existsSync env (src imageData))"

definition validReadable :: "Env \<Rightarrow> ImageData option \<Rightarrow> bool" where
  "validReadable env entry =
     (case entry of
        None \<Rightarrow> False
      | Some imageData \<Rightarrow>
          existsSync env (src imageData)
          \<and> (case sharpMetadata env (src imageData) of
                Inl e \<Rightarrow> False
              | Inr metadata \<Rightarrow>
                  \<not> noDimension (metaWidth metadata) \<and> \<not> noDimension (metaHeight metadata))
          \<and> pdfImage env (src imageData) = None)"

text \<open>
  The page breaks that the writer inserts by itself for a command, the test that the write
  stream to a path can be opened, and the number of page breaks that a command stream asks
  for.
\<close>

definition breaksOf :: "Env \<Rightarrow> DocCommand \<Rightarrow> nat" where
  "breaksOf env c = (if isDrawText c then textBreaks env c else 0)"

definition opens :: "Env \<Rightarrow> jsstring \<Rightarrow> bool" where
  "opens env p = (case streamResult env p of ErrorOnOpen e \<Rightarrow> False | _ \<Rightarrow> True)"

definition explicitBreaks :: "DocCommand list \<Rightarrow> nat" where
  "explicitBreaks cs = length (filter (\<lambda>c. c = AddPage) cs)"

text \<open>
  A sample environment for concrete runs. Every file but \<open>missing.jpg\<close> exists. The
  metadata of \<open>broken.png\<close> cannot be read, that of \<open>nosize.svg\<close> has no width,
  \<open>portrait.jpg\<close> is 1080 by 1350 pixels, \<open>wide.jpg\<close> is 3000 by 800 and every other
  image is 4000 by 3000. The PDF writer rejects \<open>scan.tiff\<close>. Every text of the sample
  runs fits on its page, and the write stream finishes.
\<close>

definition sampleDate :: DateTime where
  "sampleDate = \<lparr> fullYear = 2024, month = 2, date = 9, hours = 7, minutes = 5, seconds = 3 \<rparr>"

definition sampleEnv :: Env where
  "sampleEnv =
     \<lparr> existsSync = (\<lambda>p. p \<noteq> js ''missing.jpg''),
       sharpMetadata =
         (\<lambda>p. if p = js ''broken.png''
              then Inl (LibraryError (js ''Input file contains unsupported image format''))
              else if p = js ''nosize.svg''
              then Inr \<lparr> metaWidth = None, metaHeight = Some (Finite 600) \<rparr>
              else if p = js ''portrait.jpg''
              then Inr \<lparr> metaWidth = Some (Finite 1080), metaHeight = Some (Finite 1350) \<rparr>
              else if p = js ''wide.jpg''
              then Inr \<lparr> metaWidth = Some (Finite 3000), metaHeight = Some (Finite 800) \<rparr>
              else Inr \<lparr> metaWidth = Some (Finite 4000), metaHeight = Some (Finite 3000) \<rparr>),
       pdfImage = (\<lambda>p. if p = js ''scan.tiff''
                        then Some (LibraryError (js ''Unknown image format.'')) else None),
       textBreaks = (\<lambda>c. 0),
       streamResult = (\<lambda>p. Finish),
       now = sampleDate \<rparr>"

text \<open>
  Sample configurations: two readable images under a title; an unreadable image followed by
  a readable one, without a title; and one entry of every kind.
\<close>

definition sampleConfig :: SlideshowConfig where
  "sampleConfig =
     \<lparr> title = js ''My Trip!'', subtitle = js ''2024'',
       images = [Some \<lparr> src = js ''a.jpg'', caption = Some (js ''Beach'') \<rparr>,
                 Some \<lparr> src = js ''b.jpg'', caption = None \<rparr>] \<rparr>"

definition brokenFirstConfig :: SlideshowConfig where
  "brokenFirstConfig =
     \<lparr> title = [], subtitle = [],
       images = [Some \<lparr> src = js ''broken.png'', caption = Some (js ''Sunset'') \<rparr>,
                 Some \<lparr> src = js ''a.jpg'', caption = None \<rparr>] \<rparr>"

definition mixedConfig :: SlideshowConfig where
  "mixedConfig =
     \<lparr> title = [], subtitle = [],
       images = [None,
                 Some \<lparr> src = js ''missing.jpg'', caption = None \<rparr>,
                 Some \<lparr> src = js ''broken.png'', caption = None \<rparr>,
                 Some \<lparr> src = js ''nosize.svg'', caption = None \<rparr>,
                 Some \<lparr> src = js ''scan.tiff'', caption = None \<rparr>,
                 Some \<lparr> src = js ''a.jpg'', caption = None \<rparr>] \<rparr>"

text \<open>
  A run in which the writer wraps a long caption past the bottom margin once, and an
  environment in which the output file cannot be opened.
\<close>

definition longCaption :: jsstring where
  "longCaption = js (''The beach at dawn, seen from the northern end of the bay, where the ''
     @ ''path comes down from the cliffs, with the fishing boats drawn up on the sand and ''
     @ ''the lighthouse on the headland behind them, shortly before the first ferry of the ''
     @ ''day left the harbour for the islands'')"

definition overflowConfig :: SlideshowConfig where
  "overflowConfig =
     \<lparr> title = [], subtitle = [],
       images = [Some \<lparr> src = js ''portrait.jpg'', caption = Some longCaption \<rparr>,
                 Some \<lparr> src = js ''b.jpg'', caption = None \<rparr>] \<rparr>"

definition overflowEnv :: Env where
  "overflowEnv = sampleEnv \<lparr> textBreaks := (\<lambda>c. if content c = longCaption then 1 else 0) \<rparr>"

definition unopenableEnv :: Env where
  "unopenableEnv =
     sampleEnv \<lparr> streamResult := (\<lambda>p. ErrorOnOpen (LibraryError (js ''ENOENT''))) \<rparr>"

text \<open>
  The file name as the specification words it. \<open>specSanitize\<close> replaces every code unit
  outside \<open>[A-Za-z0-9]\<close> with an underscore; \<open>sanitizeCharacters\<close> replaces every
  character outside \<open>[A-Za-z0-9]\<close> with an underscore, a surrogate pair being one
  character. \<open>specTimestamp\<close> is the year in decimal followed by the month, the day, an
  underscore, the hour, the minute and the second, each of these zero-padded to two digits.
  \<open>timestampForm\<close> says that a string has the shape \<open>YYYYMMDD_HHMMSS\<close>: eight
  digits, an underscore, six digits.
\<close>

definition alnumChars :: string where
  "alnumChars = ''abcdefghijklmnopqrstuvwxyzABCDEFGHIJKLMNOPQRSTUVWXYZ0123456789''"

definition specSanitize :: "jsstring \<Rightarrow> jsstring" where
  "specSanitize s = concat (map (\<lambda>c. if c \<in> set (js alnumChars) then [c] else js ''_'') s)"

definition isHighSurrogate :: "16 word \<Rightarrow> bool" where
  "isHighSurrogate c = (55296 \<le> unat c \<and> unat c \<le> 56319)"

definition isLowSurrogate :: "16 word \<Rightarrow> bool" where
  "isLowSurrogate c = (56320 \<le> unat c \<and> unat c \<le> 57343)"

fun characters :: "jsstring \<Rightarrow> jsstring list" where
  "characters [] = []"
| "characters [a] = [[a]]"
| "characters (a # b # cs) =
     (if isHighSurrogate a \<and> isLowSurrogate b then [a, b] # characters cs
      else [a] # characters (b # cs))"

definition sanitizeCharacters :: "jsstring \<Rightarrow> jsstring" where
  "sanitizeCharacters s =
     concat (map (\<lambda>ch. if length ch = 1 \<and> hd ch \<in> set (js alnumChars) then ch else js ''_'')
               (characters s))"

definition zeroPad :: "nat \<Rightarrow> nat \<Rightarrow> jsstring" where
  "zeroPad w k = replicate (w - length (natToString k)) (of_char CHR ''0'') @ natToString k"

definition specTimestamp :: "DateTime \<Rightarrow> jsstring" where
  "specTimestamp d =
     intToString (fullYear d) @ zeroPad 2 (month d + 1) @ zeroPad 2 (date d)
     @ js ''_'' @ zeroPad 2 (hours d) @ zeroPad 2 (minutes d) @ zeroPad 2 (seconds d)"

definition isDigit :: "16 word \<Rightarrow> bool" where
  "isDigit c = (c \<in> set (js ''0123456789''))"

definition timestampForm :: "jsstring \<Rightarrow> bool" where
  "timestampForm ts =
     (length ts = 15 \<and> ts ! 8 = of_char CHR ''_''
      \<and> list_all isDigit (take 8 ts) \<and> list_all isDigit (drop 9 ts))"

definition specFilename :: "jsstring \<Rightarrow> jsstring \<Rightarrow> jsstring" where
  "specFilename ttl ts =
     specSanitize (if ttl = [] then js ''slideshow'' else ttl) @ js ''_'' @ ts @ js ''.pdf''"

definition emojiTitle :: jsstring where
  "emojiTitle = js ''Hi'' @ [55357, 56832]"

section \<open>Rounding\<close>

lemma roundEven_cases: "roundEven m = \<lfloor>m\<rfloor> \<or> roundEven m = \<lfloor>m\<rfloor> + 1"
  by (simp add: roundEven_def Let_def)

lemma roundEven_near: "\<bar>of_int (roundEven m) - m\<bar> \<le> 1 / 2"
proof -
  have "of_int \<lfloor>m\<rfloor> \<le> m" "m < of_int \<lfloor>m\<rfloor> + 1" by linarith+
  then show ?thesis by (auto simp: roundEven_def Let_def)
qed

lemma roundEven_unique:
  assumes "of_int n - 1 / 2 < m" "m < of_int n + 1 / 2"
  shows "roundEven m = n"
proof -
  have "\<bar>of_int (roundEven m) - m\<bar> \<le> 1 / 2" by (rule roundEven_near)
  with assms have "\<bar>(of_int (roundEven m) :: real) - of_int n\<bar> < 1" by linarith
  then have "\<bar>roundEven m - n\<bar> < 1" by (metis of_int_diff of_int_abs of_int_less_1_iff)
  then show ?thesis by linarith
qed

lemma roundEven_of_int [simp]: "roundEven (of_int n) = n"
  by (rule roundEven_unique) simp_all

lemma roundEven_numeral [simp]: "roundEven (numeral w) = numeral w"
  using roundEven_of_int [of "numeral w"] by simp

lemma roundEven_mono:
  assumes "a \<le> b"
  shows "roundEven a \<le> roundEven b"
proof (cases "\<lfloor>a\<rfloor> = \<lfloor>b\<rfloor>")
  case True
  then show ?thesis using assms by (auto simp: roundEven_def Let_def)
next
  case False
  with assms have "\<lfloor>a\<rfloor> < \<lfloor>b\<rfloor>" using floor_mono [OF assms] by linarith
  moreover have "roundEven a \<le> \<lfloor>a\<rfloor> + 1" using roundEven_cases [of a] by linarith
  moreover have "\<lfloor>b\<rfloor> \<le> roundEven b" using roundEven_cases [of b] by linarith
  ultimately show ?thesis by linarith
qed

lemma powi_nat: "0 \<le> e \<Longrightarrow> (2::real) powi e = 2 ^ nat e"
  by (simp add: power_int_def)

lemma powi_neg: "e \<le> 0 \<Longrightarrow> (2::real) powi e = 1 / 2 ^ nat (- e)"
  by (auto simp: power_int_def field_simps)

lemma exponentOf_bounds:
  assumes "0 < x"
  shows "2 powi exponentOf x \<le> x" and "x < 2 powi (exponentOf x + 1)"
proof -
  have "2 powi exponentOf x \<le> x \<and> x < 2 powi (exponentOf x + 1)"
  proof (cases "1 \<le> x")
    case True
    define f where "f = \<lfloor>x\<rfloor>"
    define b where "b = bitlen f"
    have f1: "1 \<le> f" using True by (simp add: f_def)
    then have fpos: "0 < f" by simp
    have b1: "1 \<le> b" using fpos unfolding b_def by (simp add: bitlen_alt_def)
    have bb: "2 ^ nat (b - 1) \<le> f" "f < 2 ^ nat b"
      using bitlen_bounds [OF fpos] by (simp_all add: b_def)
    have e: "exponentOf x = b - 1" using True by (simp add: exponentOf_def f_def b_def)
    have lo: "(2::real) ^ nat (b - 1) \<le> x"
    proof -
      have "(2::real) ^ nat (b - 1) \<le> of_int f" using bb(1) by (metis of_int_le_iff of_int_numeral of_int_power)
      also have "\<dots> \<le> x" by (simp add: f_def)
      finally show ?thesis .
    qed
    have hi: "x < (2::real) ^ nat b"
    proof -
      have "f + 1 \<le> 2 ^ nat b" using bb(2) by simp
      then have "(of_int (f + 1) :: real) \<le> 2 ^ nat b" by (metis of_int_le_iff of_int_numeral of_int_power)
      moreover have "x < of_int (f + 1)" by (simp add: f_def)
      ultimately show ?thesis by linarith
    qed
    show ?thesis using lo hi b1 by (simp add: e powi_nat)
  next
    case False
    define y where "y = 1 / x"
    define m where "m = \<lceil>y\<rceil> - 1"
    define b where "b = bitlen m"
    have y1: "1 < y" using False assms by (simp add: y_def)
    then have m1: "1 \<le> m" unfolding m_def by linarith
    then have mpos: "0 < m" by simp
    have b1: "1 \<le> b" using mpos unfolding b_def by (simp add: bitlen_alt_def)
    have bb: "2 ^ nat (b - 1) \<le> m" "m < 2 ^ nat b"
      using bitlen_bounds [OF mpos] by (simp_all add: b_def)
    have e: "exponentOf x = - b" using False by (simp add: exponentOf_def y_def m_def b_def)
    have my: "of_int m < y" "y \<le> of_int m + 1" unfolding m_def by linarith+
    have lo: "(2::real) ^ nat (b - 1) < y"
    proof -
      have "(2::real) ^ nat (b - 1) \<le> of_int m" using bb(1) by (metis of_int_le_iff of_int_numeral of_int_power)
      with my(1) show ?thesis by linarith
    qed
    have hi: "y \<le> (2::real) ^ nat b"
    proof -
      have "m + 1 \<le> 2 ^ nat b" using bb(2) by simp
      then have "(of_int (m + 1) :: real) \<le> 2 ^ nat b" by (metis of_int_le_iff of_int_numeral of_int_power)
      with my(2) show ?thesis by simp
    qed
    have x: "x = 1 / y" using assms by (simp add: y_def)
    have ypos: "0 < y" using y1 by simp
    have a: "1 / 2 ^ nat b \<le> x"
      unfolding x using hi ypos by (simp add: frac_le)
    have c: "x < 1 / 2 ^ nat (b - 1)"
      unfolding x using lo ypos by (simp add: frac_less2)
    have "2 powi (- b) = 1 / (2::real) ^ nat b" using b1 by (simp add: powi_neg)
    moreover have "2 powi (- b + 1) = 1 / (2::real) ^ nat (b - 1)"
      using b1 powi_neg [of "- b + 1"] by (simp add: algebra_simps)
    ultimately show ?thesis using a c by (simp add: e)
  qed
  then show "2 powi exponentOf x \<le> x" and "x < 2 powi (exponentOf x + 1)" by simp_all
qed

lemma exponentOf_unique:
  assumes "2 powi e \<le> x" "x < 2 powi (e + 1)"
  shows "exponentOf x = e"
proof -
  have pos: "0 < x" using assms(1) zero_less_power_int [of "2::real" e] by linarith
  note b = exponentOf_bounds [OF pos]
  have "(2::real) powi e < 2 powi (exponentOf x + 1)" using assms(1) b(2) by linarith
  then have 1: "e < exponentOf x + 1"
    by (metis power_int_increasing linorder_not_le one_le_numeral)
  have "(2::real) powi exponentOf x < 2 powi (e + 1)" using assms(2) b(1) by linarith
  then have 2: "exponentOf x < e + 1"
    by (metis power_int_increasing linorder_not_le one_le_numeral)
  from 1 2 show ?thesis by linarith
qed

lemma roundPositive_roundValue:
  "roundPositive x = (if 2 powi 1024 \<le> roundValue x then PosInfinity else Finite (roundValue x))"
  by (simp add: roundPositive_def roundValue_def Let_def)

lemma exponentOf_mono:
  assumes "0 < x" "x \<le> y"
  shows "exponentOf x \<le> exponentOf y"
proof -
  have ypos: "0 < y" using assms by simp
  have "(2::real) powi exponentOf x < 2 powi (exponentOf y + 1)"
    using exponentOf_bounds(1) [OF assms(1)] exponentOf_bounds(2) [OF ypos] assms(2) by linarith
  then have "exponentOf x < exponentOf y + 1"
    by (metis power_int_increasing linorder_not_le one_le_numeral)
  then show ?thesis by simp
qed

lemma powi_split: "(2::real) powi (a + b) = 2 powi a * 2 powi b"
  by (rule power_int_add) simp

lemma powi_52: "(2::real) powi e = 2 ^ 52 * 2 powi (e - 52)"
  using powi_split [of 52 "e - 52"] by (simp add: powi_nat)

lemma powi_53: "(2::real) powi (e + 1) = 2 ^ 53 * 2 powi (e - 52)"
proof -
  have "e + 1 = 53 + (e - 52)" by simp
  then have "(2::real) powi (e + 1) = 2 powi 53 * 2 powi (e - 52)"
    using powi_split [of 53 "e - 52"] by (simp add: add.commute)
  then show ?thesis by (simp add: powi_nat)
qed

lemma roundValue_mono:
  assumes "0 < x" "x \<le> y"
  shows "roundValue x \<le> roundValue y"
proof -
  have ypos: "0 < y" using assms by simp
  define ex where "ex = max (exponentOf x) (- 1022)"
  define ey where "ey = max (exponentOf y) (- 1022)"
  have le: "ex \<le> ey" using exponentOf_mono [OF assms] by (simp add: ex_def ey_def)
  have vx: "roundValue x = of_int (roundEven (x / 2 powi (ex - 52))) * 2 powi (ex - 52)"
    by (simp add: roundValue_def ex_def Let_def)
  have vy: "roundValue y = of_int (roundEven (y / 2 powi (ey - 52))) * 2 powi (ey - 52)"
    by (simp add: roundValue_def ey_def Let_def)
  show ?thesis
  proof (cases "ex = ey")
    case True
    have "x / 2 powi (ey - 52) \<le> y / 2 powi (ey - 52)"
      using assms(2) by (simp add: divide_right_mono)
    then have "roundEven (x / 2 powi (ey - 52)) \<le> roundEven (y / 2 powi (ey - 52))"
      by (rule roundEven_mono)
    then have "(of_int (roundEven (x / 2 powi (ey - 52))) :: real)
        \<le> of_int (roundEven (y / 2 powi (ey - 52)))" by simp
    then show ?thesis unfolding vx vy True by (simp add: mult_right_mono)
  next
    case False
    with le have lt: "ex + 1 \<le> ey" by simp
    then have eyv: "ey = exponentOf y" by (simp add: ex_def ey_def max_def split: if_splits)
    have xb: "x < 2 powi (ex + 1)"
    proof -
      have "exponentOf x + 1 \<le> ex + 1" by (simp add: ex_def)
      then have "(2::real) powi (exponentOf x + 1) \<le> 2 powi (ex + 1)"
        by (intro power_int_increasing) simp_all
      with exponentOf_bounds(2) [OF assms(1)] show ?thesis by linarith
    qed
    have qx: "0 < (2::real) powi (ex - 52)" by simp
    have "x / 2 powi (ex - 52) \<le> 2 ^ 53"
      using xb qx by (simp add: powi_53 [of ex] pos_divide_le_eq)
    then have "roundEven (x / 2 powi (ex - 52)) \<le> roundEven (of_int (2 ^ 53))"
      by (intro roundEven_mono) simp
    then have "roundEven (x / 2 powi (ex - 52)) \<le> 2 ^ 53" by simp
    then have "(of_int (roundEven (x / 2 powi (ex - 52))) :: real) \<le> 2 ^ 53"
      by (metis of_int_le_iff of_int_numeral of_int_power)
    then have ux: "roundValue x \<le> 2 powi (ex + 1)"
      unfolding vx powi_53 [of ex] using qx by (simp add: mult_right_mono)
    have yb: "2 powi ey \<le> y" unfolding eyv by (rule exponentOf_bounds(1) [OF ypos])
    have qy: "0 < (2::real) powi (ey - 52)" by simp
    have "2 ^ 52 \<le> y / 2 powi (ey - 52)"
      using yb qy by (simp add: powi_52 [of ey] pos_le_divide_eq)
    then have "roundEven (of_int (2 ^ 52)) \<le> roundEven (y / 2 powi (ey - 52))"
      by (intro roundEven_mono) simp
    then have "2 ^ 52 \<le> roundEven (y / 2 powi (ey - 52))" by simp
    then have "(2::real) ^ 52 \<le> of_int (roundEven (y / 2 powi (ey - 52)))"
      by (metis of_int_le_iff of_int_numeral of_int_power)
    then have ly: "2 powi ey \<le> roundValue y"
      unfolding vy powi_52 [of ey] using qy by (simp add: mult_right_mono)
    have "(2::real) powi (ex + 1) \<le> 2 powi ey"
      using lt by (intro power_int_increasing) simp_all
    with ux ly show ?thesis by linarith
  qed
qed

lemma round64_eval_gen:
  assumes lo: "2 ^ 52 \<le> x * 2 ^ k" and hi: "x * 2 ^ k < 2 ^ 53" and k: "k \<le> 1074"
    and r: "roundEven (x * 2 ^ k) = n"
  shows "round64 x = Finite (of_int n / 2 ^ k)"
proof -
  define e :: int where "e = 52 - int k"
  have q: "(2::real) powi (e - 52) = 1 / 2 ^ k"
    using powi_neg [of "- int k"] by (simp add: e_def)
  have p2: "0 < (2::real) ^ k" by simp
  have pos: "0 < x"
  proof (rule ccontr)
    assume "\<not> 0 < x"
    then have "x * 2 ^ k \<le> 0" using p2 by (simp add: mult_le_0_iff)
    with lo show False by simp
  qed
  have a: "2 powi e \<le> x"
    unfolding powi_52 [of e] q using lo p2 by (simp add: pos_divide_le_eq)
  have b: "x < 2 powi (e + 1)"
    unfolding powi_53 [of e] q using hi p2 by (simp add: pos_less_divide_eq)
  have ex: "exponentOf x = e" by (rule exponentOf_unique [OF a b])
  have e1: "max e (- 1022) = e" using k by (simp add: e_def)
  have xq: "x / 2 powi (e - 52) = x * 2 ^ k" by (simp add: q)
  have v: "roundValue x = of_int n / 2 ^ k"
    by (simp add: roundValue_def Let_def ex e1 xq r q)
  have "roundEven (x * 2 ^ k) \<le> roundEven (of_int (2 ^ 53))"
    by (rule roundEven_mono) (use hi in simp)
  then have "n \<le> 2 ^ 53" using r by simp
  then have nle: "(of_int n :: real) \<le> 2 ^ 53" by (metis of_int_le_iff of_int_numeral of_int_power)
  have "roundEven (of_int (2 ^ 52)) \<le> roundEven (x * 2 ^ k)"
    by (rule roundEven_mono) (use lo in simp)
  then have "0 \<le> n" using r by simp
  then have npos: "0 \<le> (of_int n :: real)" by simp
  have "of_int n / 2 ^ k \<le> (of_int n :: real) / 1"
    using npos by (intro divide_left_mono) simp_all
  then have "of_int n / 2 ^ k \<le> (of_int n :: real)" by simp
  with nle have "of_int n / (2::real) ^ k \<le> 2 ^ 53" by linarith
  also have "\<dots> < 2 ^ 1024" by simp
  finally have small: "\<not> 2 powi 1024 \<le> of_int n / (2::real) ^ k" by (simp add: powi_nat)
  show ?thesis using pos small by (simp add: round64_def roundPositive_roundValue v)
qed

lemma round64_eval:
  assumes "2 ^ 52 \<le> x * 2 ^ k" and "x * 2 ^ k < 2 ^ 53" and "k \<le> 1074"
    and n1: "of_int n - 1 / 2 < x * 2 ^ k" and n2: "x * 2 ^ k < of_int n + 1 / 2"
  shows "round64 x = Finite (of_int n / 2 ^ k)"
  using assms(1-3) roundEven_unique [OF n1 n2] by (rule round64_eval_gen)

lemma roundEven_tie_down: "even n \<Longrightarrow> roundEven (of_int n + 1 / 2) = n"
  by (simp add: roundEven_def Let_def)

lemma roundEven_tie_up: "even n \<Longrightarrow> roundEven (of_int n - 1 / 2) = n"
proof -
  assume e: "even n"
  have f: "\<lfloor>(of_int n :: real) - 1 / 2\<rfloor> = n - 1" by linarith
  have o: "odd (n - 1)" using e by simp
  show ?thesis unfolding roundEven_def Let_def f using o by simp
qed

lemma round64_eval_tie_down:
  assumes "2 ^ 52 \<le> x * 2 ^ k" and "x * 2 ^ k < 2 ^ 53" and "k \<le> 1074"
    and t: "x * 2 ^ k = of_int n + 1 / 2" and e: "even n"
  shows "round64 x = Finite (of_int n / 2 ^ k)"
proof -
  have "roundEven (x * 2 ^ k) = n" unfolding t using e by (rule roundEven_tie_down)
  with assms(1-3) show ?thesis by (rule round64_eval_gen)
qed

lemma round64_eval_tie_up:
  assumes "2 ^ 52 \<le> x * 2 ^ k" and "x * 2 ^ k < 2 ^ 53" and "k \<le> 1074"
    and t: "x * 2 ^ k = of_int n - 1 / 2" and e: "even n"
  shows "round64 x = Finite (of_int n / 2 ^ k)"
proof -
  have "roundEven (x * 2 ^ k) = n" unfolding t using e by (rule roundEven_tie_up)
  with assms(1-3) show ?thesis by (rule round64_eval_gen)
qed

lemma round64_rel:
  assumes lo: "2 powi (- 1022) \<le> x" and hi: "x < 2 powi 1023"
  shows "\<exists>y. round64 x = Finite y \<and> \<bar>y - x\<bar> \<le> x / 2 ^ 53 \<and> 0 < y"
proof -
  have pos: "0 < x" using lo zero_less_power_int [of "2::real" "- 1022"] by linarith
  define e where "e = exponentOf x"
  note b = exponentOf_bounds [OF pos, folded e_def]
  have "(2::real) powi (- 1022) < 2 powi (e + 1)" using lo b(2) by linarith
  then have "- 1022 < e + 1" by (metis power_int_increasing linorder_not_le one_le_numeral)
  then have e1: "max e (- 1022) = e" by simp
  define q :: real where "q = 2 powi (e - 52)"
  have qpos: "0 < q" by (simp add: q_def)
  define y where "y = of_int (roundEven (x / q)) * q"
  have v: "roundValue x = y" by (simp add: roundValue_def Let_def e_def [symmetric] e1 q_def y_def)
  have "\<bar>of_int (roundEven (x / q)) - x / q\<bar> \<le> 1 / 2" by (rule roundEven_near)
  then have "\<bar>of_int (roundEven (x / q)) - x / q\<bar> * q \<le> 1 / 2 * q"
    using qpos by (simp add: mult_right_mono)
  moreover have "\<bar>of_int (roundEven (x / q)) - x / q\<bar> * q = \<bar>y - x\<bar>"
  proof -
    have "\<bar>of_int (roundEven (x / q)) - x / q\<bar> * q = \<bar>(of_int (roundEven (x / q)) - x / q) * q\<bar>"
      using qpos by (simp add: abs_mult)
    also have "(of_int (roundEven (x / q)) - x / q) * q = y - x"
      using qpos by (simp add: y_def algebra_simps)
    finally show ?thesis .
  qed
  ultimately have d: "\<bar>y - x\<bar> \<le> q / 2" by simp
  have qx: "q / 2 \<le> x / 2 ^ 53"
  proof -
    have "2 ^ 53 * q \<le> 2 * x" using b(1) unfolding powi_52 [of e] q_def [symmetric] by simp
    then show ?thesis by (simp add: field_simps)
  qed
  have rel: "\<bar>y - x\<bar> \<le> x / 2 ^ 53" using d qx by linarith
  have "x / 2 ^ 53 < x" using pos by (simp add: field_simps)
  with rel have ypos: "0 < y" and yx: "y < 2 * x" by linarith+
  have "2 * x < 2 * 2 powi 1023" using hi by simp
  also have "\<dots> = 2 powi 1024" by (simp add: powi_nat)
  finally have "\<not> 2 powi 1024 \<le> y" using yx by linarith
  then have "round64 x = Finite y" using pos by (simp add: round64_def roundPositive_roundValue v)
  with rel ypos show ?thesis by blast
qed

lemma unitRoundoff_bounds: "0 < unitRoundoff" "unitRoundoff < 1" "unitRoundoff \<le> 1 / 2"
  by (simp_all add: unitRoundoff_def)

lemma inRange_pos: "inRange a x \<Longrightarrow> 0 < x"
proof -
  assume "inRange a x"
  then have "1 / 2 ^ a \<le> x" by (simp add: inRange_def)
  moreover have "0 < 1 / (2::real) ^ a" by simp
  ultimately show ?thesis by linarith
qed

lemma inRange_mono: "a \<le> b \<Longrightarrow> inRange a x \<Longrightarrow> inRange b x"
proof -
  assume ab: "a \<le> b" and r: "inRange a x"
  have p: "(2::real) ^ a \<le> 2 ^ b" by (rule power_increasing) (use ab in simp_all)
  then have q: "1 / (2::real) ^ b \<le> 1 / 2 ^ a" by (simp add: frac_le)
  from r have "1 / 2 ^ a \<le> x" "x \<le> 2 ^ a" by (simp_all add: inRange_def)
  with p q have "1 / 2 ^ b \<le> x" "x \<le> 2 ^ b" by linarith+
  then show ?thesis by (simp add: inRange_def)
qed

lemma inRange_mult:
  assumes "inRange a x" "inRange b y"
  shows "inRange (a + b) (x * y)"
proof -
  have px: "0 < x" and py: "0 < y" using assms by (auto dest: inRange_pos)
  have bx: "1 / 2 ^ a \<le> x" "x \<le> 2 ^ a" and by': "1 / 2 ^ b \<le> y" "y \<le> 2 ^ b"
    using assms by (simp_all add: inRange_def)
  have "x * y \<le> 2 ^ a * 2 ^ b"
    by (rule mult_mono) (use bx by' px py in simp_all)
  moreover have "(1 / 2 ^ a) * (1 / 2 ^ b) \<le> x * y"
    by (rule mult_mono) (use bx by' px py in simp_all)
  ultimately show ?thesis by (simp add: inRange_def power_add)
qed

lemma inRange_inverse:
  assumes "inRange a x"
  shows "inRange a (1 / x)"
proof -
  have px: "0 < x" using assms by (rule inRange_pos)
  have "1 / x \<le> 1 / (1 / 2 ^ a)"
    using assms by (intro divide_left_mono) (auto simp: inRange_def px)
  moreover have "1 / 2 ^ a \<le> 1 / x"
    using assms px by (intro divide_left_mono) (auto simp: inRange_def)
  ultimately show ?thesis by (simp add: inRange_def)
qed

lemma inRange_div:
  assumes "inRange a x" "inRange b y"
  shows "inRange (a + b) (x / y)"
  using inRange_mult [OF assms(1) inRange_inverse [OF assms(2)]] by simp

lemma inRange_min: "inRange a x \<Longrightarrow> inRange a y \<Longrightarrow> inRange a (min x y)"
  by (simp add: min_def)

lemma round64_range:
  assumes r: "inRange a x" and a: "a \<le> 1021"
  shows "\<exists>y. round64 x = Finite y \<and> x * (1 - unitRoundoff) \<le> y \<and> y \<le> x * (1 + unitRoundoff)
             \<and> inRange (a + 1) y"
proof -
  have px: "0 < x" using r by (rule inRange_pos)
  define N :: nat where "N = 1021"
  have aN: "a \<le> N" using a by (simp add: N_def)
  have rN: "inRange N x" by (rule inRange_mono [OF aN r])
  then have up: "x \<le> 2 ^ N" and lo: "1 / 2 ^ N \<le> x" by (simp_all add: inRange_def)
  have l: "2 powi (- 1022) \<le> x"
  proof -
    have "2 powi (- 1022) = 1 / (2::real) ^ Suc N" using powi_neg [of "- 1022"] by (simp add: N_def)
    also have "\<dots> \<le> 1 / 2 ^ N" by (simp add: frac_le)
    finally show ?thesis using lo by linarith
  qed
  have h: "x < 2 powi 1023"
  proof -
    have "(2::real) powi 1023 = 2 ^ (N + 2)" using powi_nat [of 1023] by (simp add: N_def)
    moreover have "(2::real) ^ N < 2 ^ (N + 2)" by (rule power_strict_increasing) simp_all
    ultimately show ?thesis using up by linarith
  qed
  from round64_rel [OF l h] obtain y where y: "round64 x = Finite y" "\<bar>y - x\<bar> \<le> x / 2 ^ 53" "0 < y"
    by blast
  have d: "x / 2 ^ 53 = x * unitRoundoff" by (simp add: unitRoundoff_def)
  have d1: "x - x * unitRoundoff \<le> y" and d2: "y \<le> x + x * unitRoundoff"
    using y(2) unfolding d by linarith+
  have b1: "x * (1 - unitRoundoff) \<le> y" and b2: "y \<le> x * (1 + unitRoundoff)"
    using d1 d2 by (simp_all add: algebra_simps)
  have ux: "x * unitRoundoff \<le> x * (1 / 2)"
    by (rule mult_left_mono) (use px unitRoundoff_bounds(3) in simp_all)
  have hx: "x / 2 \<le> y" "y \<le> 2 * x" using d1 d2 ux px by linarith+
  define P where "P = (2::real) ^ a"
  have rx: "1 / P \<le> x" "x \<le> P" using r by (simp_all add: inRange_def P_def)
  have i: "1 / (2 * P) = (1 / P) / 2" by simp
  have "(1 / P) / 2 \<le> x / 2" by (rule divide_right_mono [OF rx(1)]) simp
  then have "1 / (2 * P) \<le> y" unfolding i using hx(1) by (rule order_trans)
  moreover have "y \<le> 2 * P" using hx(2) rx(2) by linarith
  ultimately have "inRange (a + 1) y" by (simp add: inRange_def P_def)
  with y(1) b1 b2 show ?thesis by blast
qed

lemma jsDiv_Finite: "b \<noteq> 0 \<Longrightarrow> jsDiv (Finite a) (Finite b) = round64 (a / b)"
  by simp

lemma core:
  assumes nw: "inRange a nw" and nh: "inRange a nh" and mw: "inRange b mw" and mh: "inRange b mh"
    and ab: "2 * a + b + 1 \<le> 1021"
  shows "\<exists>s w' h'.
      jsMin (jsDiv (Finite mw) (Finite nw)) (jsDiv (Finite mh) (Finite nh)) = Finite s
    \<and> jsMul (Finite nw) (Finite s) = Finite w'
    \<and> jsMul (Finite nh) (Finite s) = Finite h'
    \<and> min (mw / nw) (mh / nh) * (1 - unitRoundoff) \<le> s
    \<and> s \<le> min (mw / nw) (mh / nh) * (1 + unitRoundoff)
    \<and> nw * s * (1 - unitRoundoff) \<le> w' \<and> w' \<le> nw * s * (1 + unitRoundoff)
    \<and> nh * s * (1 - unitRoundoff) \<le> h' \<and> h' \<le> nh * s * (1 + unitRoundoff)
    \<and> 0 < s \<and> inRange (2 * a + b + 2) w' \<and> inRange (2 * a + b + 2) h'"
proof -
  let ?u = unitRoundoff
  have u: "0 < 1 - ?u" "0 < 1 + ?u" using unitRoundoff_bounds by simp_all
  have pnw: "0 < nw" and pnh: "0 < nh" using nw nh by (auto dest: inRange_pos)
  have rw: "inRange (b + a) (mw / nw)" by (rule inRange_div [OF mw nw])
  have rh: "inRange (b + a) (mh / nh)" by (rule inRange_div [OF mh nh])
  have ba: "b + a \<le> 1021" using ab by simp
  from round64_range [OF rw ba] obtain wr where wr: "round64 (mw / nw) = Finite wr"
    "mw / nw * (1 - ?u) \<le> wr" "wr \<le> mw / nw * (1 + ?u)" "inRange (b + a + 1) wr" by blast
  from round64_range [OF rh ba] obtain hr where hr: "round64 (mh / nh) = Finite hr"
    "mh / nh * (1 - ?u) \<le> hr" "hr \<le> mh / nh * (1 + ?u)" "inRange (b + a + 1) hr" by blast
  define s where "s = min wr hr"
  define E where "E = min (mw / nw) (mh / nh)"
  have smin: "jsMin (jsDiv (Finite mw) (Finite nw)) (jsDiv (Finite mh) (Finite nh)) = Finite s"
    using pnw pnh by (simp add: wr(1) hr(1) s_def)
  have rs: "inRange (b + a + 1) s" unfolding s_def by (rule inRange_min [OF wr(4) hr(4)])
  have ps: "0 < s" using rs by (rule inRange_pos)
  have Ew: "E \<le> mw / nw" and Eh: "E \<le> mh / nh" by (simp_all add: E_def)
  have s1: "E * (1 - ?u) \<le> s"
  proof -
    have "E * (1 - ?u) \<le> mw / nw * (1 - ?u)" by (rule mult_right_mono) (use Ew u(1) in simp_all)
    moreover have "E * (1 - ?u) \<le> mh / nh * (1 - ?u)" by (rule mult_right_mono) (use Eh u(1) in simp_all)
    ultimately show ?thesis using wr(2) hr(2) by (simp add: s_def)
  qed
  have s2: "s \<le> E * (1 + ?u)"
  proof (cases "mw / nw \<le> mh / nh")
    case True
    then have "E = mw / nw" by (simp add: E_def)
    then show ?thesis using wr(3) by (simp add: s_def min_le_iff_disj)
  next
    case False
    then have "E = mh / nh" by (simp add: E_def)
    then show ?thesis using hr(3) by (simp add: s_def min_le_iff_disj)
  qed
  have rws: "inRange (a + (b + a + 1)) (nw * s)" by (rule inRange_mult [OF nw rs])
  have rhs: "inRange (a + (b + a + 1)) (nh * s)" by (rule inRange_mult [OF nh rs])
  have c: "a + (b + a + 1) \<le> 1021" using ab by simp
  from round64_range [OF rws c] obtain w' where w': "round64 (nw * s) = Finite w'"
    "nw * s * (1 - ?u) \<le> w'" "w' \<le> nw * s * (1 + ?u)" "inRange (a + (b + a + 1) + 1) w'" by blast
  from round64_range [OF rhs c] obtain h' where h': "round64 (nh * s) = Finite h'"
    "nh * s * (1 - ?u) \<le> h'" "h' \<le> nh * s * (1 + ?u)" "inRange (a + (b + a + 1) + 1) h'" by blast
  have eq: "a + (b + a + 1) + 1 = 2 * a + b + 2" by simp
  have "jsMul (Finite nw) (Finite s) = Finite w'" "jsMul (Finite nh) (Finite s) = Finite h'"
    by (simp_all add: w'(1) h'(1))
  with smin s1 s2 w'(2,3) h'(2,3) ps w'(4) h'(4) show ?thesis
    unfolding E_def eq by blast
qed

lemma calculateImageSize_Finite:
  assumes "jsMin (jsDiv (Finite mw) (Finite nw)) (jsDiv (Finite mh) (Finite nh)) = Finite s"
    "jsMul (Finite nw) (Finite s) = Finite w'" "jsMul (Finite nh) (Finite s) = Finite h'"
  shows "calculateImageSize (Finite nw) (Finite nh) (Finite mw) (Finite mh)
           = \<lparr> width = Finite w', height = Finite h' \<rparr>"
  using assms by (simp add: calculateImageSize_def Let_def del: jsDiv.simps jsMul.simps jsMin.simps)

text \<open>Real arithmetic behind the bounds: \<open>u\<close> is the unit roundoff.\<close>

lemma scaled_bounds:
  fixes n E s r u :: real
  assumes n: "0 < n" and u: "0 < u" "u < 1" and E: "0 < E"
    and s: "E * (1 - u) \<le> s" "s \<le> E * (1 + u)"
    and r: "n * s * (1 - u) \<le> r" "r \<le> n * s * (1 + u)"
  shows "n * E * (1 - u)\<^sup>2 \<le> r" and "r \<le> n * E * (1 + u)\<^sup>2" and "0 < r"
proof -
  have u1: "0 < 1 - u" and u2: "0 < 1 + u" using u by simp_all
  have "n * (E * (1 - u)) \<le> n * s" by (rule mult_left_mono) (use s(1) n in simp_all)
  then have "n * (E * (1 - u)) * (1 - u) \<le> n * s * (1 - u)"
    by (rule mult_right_mono) (use u1 in simp)
  then have a: "n * (E * (1 - u)) * (1 - u) \<le> r" using r(1) by linarith
  have e1: "n * (E * (1 - u)) * (1 - u) = n * E * (1 - u)\<^sup>2" by (simp add: power2_eq_square)
  show lo: "n * E * (1 - u)\<^sup>2 \<le> r" using a unfolding e1 .
  have "n * s \<le> n * (E * (1 + u))" by (rule mult_left_mono) (use s(2) n in simp_all)
  then have "n * s * (1 + u) \<le> n * (E * (1 + u)) * (1 + u)"
    by (rule mult_right_mono) (use u2 in simp)
  then have b: "r \<le> n * (E * (1 + u)) * (1 + u)" using r(2) by linarith
  have e2: "n * (E * (1 + u)) * (1 + u) = n * E * (1 + u)\<^sup>2" by (simp add: power2_eq_square)
  show "r \<le> n * E * (1 + u)\<^sup>2" using b unfolding e2 .
  have "0 < n * E * (1 - u)\<^sup>2" using n E u1 by simp
  with lo show "0 < r" by linarith
qed

lemma ratio_bounds:
  fixes a b s w h u :: real
  assumes a: "0 < a" and b: "0 < b" and s: "0 < s" and u: "0 < u" "u < 1"
    and w: "a * s * (1 - u) \<le> w" "w \<le> a * s * (1 + u)"
    and h: "b * s * (1 - u) \<le> h" "h \<le> b * s * (1 + u)"
  shows "a / b * ((1 - u) / (1 + u)) \<le> w / h" and "w / h \<le> a / b * ((1 + u) / (1 - u))"
proof -
  have u1: "0 < 1 - u" and u2: "0 < 1 + u" using u by simp_all
  have lw: "0 < a * s * (1 - u)" and lh: "0 < b * s * (1 - u)" using a b s u1 by simp_all
  have hw: "0 < a * s * (1 + u)" and hh: "0 < b * s * (1 + u)" using a b s u2 by simp_all
  have pw: "0 < w" and ph: "0 < h" using w(1) h(1) lw lh by linarith+
  have "a * s * (1 - u) / (b * s * (1 + u)) \<le> w / h"
    by (rule frac_le) (use w(1) h(2) lw ph in simp_all)
  moreover have "a * s * (1 - u) / (b * s * (1 + u)) = a / b * ((1 - u) / (1 + u))"
    using s by simp
  ultimately show "a / b * ((1 - u) / (1 + u)) \<le> w / h" by simp
  have "w / h \<le> a * s * (1 + u) / (b * s * (1 - u))"
    by (rule frac_le) (use w(2) h(1) lh pw in simp_all)
  moreover have "a * s * (1 + u) / (b * s * (1 - u)) = a / b * ((1 + u) / (1 - u))"
    using s by simp
  ultimately show "w / h \<le> a / b * ((1 + u) / (1 - u))" by simp
qed

lemma min_ratio_scaled:
  fixes nw nh mw mh :: real
  assumes "0 < nw" "0 < nh" "0 < mw" "0 < mh"
  shows "nw * min (mw / nw) (mh / nh) \<le> mw" and "nh * min (mw / nw) (mh / nh) \<le> mh"
    and "nw * min (mw / nw) (mh / nh) = mw \<or> nh * min (mw / nw) (mh / nh) = mh"
    and "0 < min (mw / nw) (mh / nh)"
proof -
  define E where "E = min (mw / nw) (mh / nh)"
  have Ew: "E \<le> mw / nw" and Eh: "E \<le> mh / nh" by (simp_all add: E_def)
  have "nw * E \<le> nw * (mw / nw)" by (rule mult_left_mono) (use Ew assms in simp_all)
  then show "nw * min (mw / nw) (mh / nh) \<le> mw" using assms(1) by (simp add: E_def)
  have "nh * E \<le> nh * (mh / nh)" by (rule mult_left_mono) (use Eh assms in simp_all)
  then show "nh * min (mw / nw) (mh / nh) \<le> mh" using assms(2) by (simp add: E_def)
  show "nw * min (mw / nw) (mh / nh) = mw \<or> nh * min (mw / nw) (mh / nh) = mh"
    using assms(1,2) by (cases "mw / nw \<le> mh / nh") (simp_all add: min_def)
  show "0 < min (mw / nw) (mh / nh)" using assms by simp
qed

lemma second_pass_bounds:
  fixes w s2 w2 E2 u :: real
  assumes w: "0 < w" and u: "0 < u" "u < 1"
    and E: "1 / (1 + u)\<^sup>2 \<le> E2" "E2 \<le> 1 / (1 - u)\<^sup>2"
    and s: "E2 * (1 - u) \<le> s2" "s2 \<le> E2 * (1 + u)"
    and r: "w * s2 * (1 - u) \<le> w2" "w2 \<le> w * s2 * (1 + u)"
  shows "w * ((1 - u) / (1 + u))\<^sup>2 \<le> w2" and "w2 \<le> w * ((1 + u) / (1 - u))\<^sup>2"
proof -
  have u1: "0 < 1 - u" and u2: "0 < 1 + u" using u by simp_all
  have p1: "0 < (1 - u)\<^sup>2" and p2: "0 < (1 + u)\<^sup>2" using u1 u2 by simp_all
  have Epos: "0 < E2"
  proof -
    have "0 < 1 / (1 + u)\<^sup>2" using p2 by simp
    with E(1) show ?thesis by linarith
  qed
  note b = scaled_bounds [OF w u Epos s r]
  have "w * (1 / (1 + u)\<^sup>2) \<le> w * E2" by (rule mult_left_mono) (use E(1) w in simp_all)
  then have "w * (1 / (1 + u)\<^sup>2) * (1 - u)\<^sup>2 \<le> w * E2 * (1 - u)\<^sup>2"
    by (rule mult_right_mono) (use p1 in simp)
  moreover have "w * (1 / (1 + u)\<^sup>2) * (1 - u)\<^sup>2 = w * ((1 - u) / (1 + u))\<^sup>2"
    by (simp add: power_divide)
  ultimately show "w * ((1 - u) / (1 + u))\<^sup>2 \<le> w2" using b(1) by linarith
  have "w * E2 \<le> w * (1 / (1 - u)\<^sup>2)" by (rule mult_left_mono) (use E(2) w in simp_all)
  then have "w * E2 * (1 + u)\<^sup>2 \<le> w * (1 / (1 - u)\<^sup>2) * (1 + u)\<^sup>2"
    by (rule mult_right_mono) (use p2 in simp)
  moreover have "w * (1 / (1 - u)\<^sup>2) * (1 + u)\<^sup>2 = w * ((1 + u) / (1 - u))\<^sup>2"
    by (simp add: power_divide)
  ultimately show "w2 \<le> w * ((1 + u) / (1 - u))\<^sup>2" using b(2) by linarith
qed

lemma inverse_bound_lower:
  fixes m w c :: real
  assumes "0 < w" "0 < c" "w \<le> m * c"
  shows "1 / c \<le> m / w"
proof -
  have "w / c \<le> m" using assms by (simp add: pos_divide_le_eq)
  then have "w * (1 / c) \<le> m" by simp
  then show ?thesis using assms(1) by (simp add: pos_le_divide_eq mult.commute)
qed

lemma inverse_bound_upper:
  fixes m w c :: real
  assumes "0 < w" "0 < c" "m * c \<le> w"
  shows "m / w \<le> 1 / c"
proof -
  have "m \<le> w / c" using assms by (simp add: pos_le_divide_eq)
  then have "m \<le> w * (1 / c)" by simp
  then show ?thesis using assms(1) by (simp add: pos_divide_le_eq mult.commute)
qed

lemma roundEven_nonneg: "0 \<le> m \<Longrightarrow> 0 \<le> roundEven m"
  using roundEven_mono [of 0 m] roundEven_of_int [of 0] by simp

lemma roundValue_nonneg: "0 \<le> x \<Longrightarrow> 0 \<le> roundValue x"
proof -
  assume x: "0 \<le> x"
  define q :: real where "q = 2 powi (max (exponentOf x) (- 1022) - 52)"
  have q: "0 < q" by (simp add: q_def)
  then have "0 \<le> x / q" using x by simp
  then have "0 \<le> roundEven (x / q)" by (rule roundEven_nonneg)
  then have "0 \<le> (of_int (roundEven (x / q)) :: real) * q" using q by simp
  then show ?thesis by (simp add: roundValue_def Let_def q_def)
qed

lemma round64_nonNegative: "0 \<le> x \<Longrightarrow> nonNegative (round64 x)"
  using roundValue_nonneg [of x]
  by (simp add: round64_def roundPositive_roundValue nonNegative_def)

lemma round64_mono:
  assumes "0 \<le> x" "x \<le> y"
  shows "jsLessEq (round64 x) (round64 y)"
proof (cases "x = 0")
  case True
  have "nonNegative (round64 y)" using assms by (intro round64_nonNegative) simp
  then show ?thesis
    by (cases "round64 y") (simp_all add: True round64_def nonNegative_def)
next
  case False
  with assms have px: "0 < x" and py: "0 < y" by simp_all
  have m: "roundValue x \<le> roundValue y" by (rule roundValue_mono [OF px assms(2)])
  show ?thesis using px py m by (simp add: round64_def roundPositive_roundValue)
qed

lemma jsMin_nonNegative: "nonNegative a \<Longrightarrow> nonNegative b \<Longrightarrow> nonNegative (jsMin a b)"
  by (cases a; cases b) (simp_all add: nonNegative_def)

lemma jsMin_mono:
  assumes "nonNegative a" "nonNegative b" "nonNegative c" "nonNegative d"
    and "jsLessEq a c" "jsLessEq b d"
  shows "jsLessEq (jsMin a b) (jsMin c d)"
  using assms
  by (cases a; cases b; cases c; cases d) (simp_all add: nonNegative_def min_le_iff_disj)

lemma jsMul_mono:
  assumes n: "0 < n" and "nonNegative s" "nonNegative t" "jsLessEq s t"
  shows "jsLessEq (jsMul (Finite n) s) (jsMul (Finite n) t)"
proof (cases s)
  case (Finite a)
  with assms(2) have a: "0 \<le> a" by (simp add: nonNegative_def)
  show ?thesis
  proof (cases t)
    case (Finite b)
    with assms(4) \<open>s = Finite a\<close> have "a \<le> b" by simp
    then have "n * a \<le> n * b" using n by simp
    moreover have "0 \<le> n * a" using n a by simp
    ultimately show ?thesis using \<open>s = Finite a\<close> Finite by (simp add: round64_mono)
  next
    case PosInfinity
    have "nonNegative (round64 (n * a))" using n a by (intro round64_nonNegative) simp
    then show ?thesis using \<open>s = Finite a\<close> PosInfinity n
      by (cases "round64 (n * a)") (simp_all add: nonNegative_def)
  next
    case NegInfinity
    with assms(3) show ?thesis by (simp add: nonNegative_def)
  next
    case NaN
    with assms(3) show ?thesis by (simp add: nonNegative_def)
  qed
next
  case PosInfinity
  with assms(3,4) n show ?thesis by (cases t) (simp_all add: nonNegative_def)
next
  case NegInfinity
  with assms(2) show ?thesis by (simp add: nonNegative_def)
next
  case NaN
  with assms(2) show ?thesis by (simp add: nonNegative_def)
qed

lemma jsDiv_mono:
  assumes "0 < n" "0 < a" "a \<le> b"
  shows "jsLessEq (jsDiv (Finite a) (Finite n)) (jsDiv (Finite b) (Finite n))"
    and "nonNegative (jsDiv (Finite a) (Finite n))" and "nonNegative (jsDiv (Finite b) (Finite n))"
proof -
  have "0 \<le> a / n" "a / n \<le> b / n" "0 \<le> b / n" using assms by (simp_all add: divide_right_mono)
  then show "jsLessEq (jsDiv (Finite a) (Finite n)) (jsDiv (Finite b) (Finite n))"
    and "nonNegative (jsDiv (Finite a) (Finite n))" and "nonNegative (jsDiv (Finite b) (Finite n))"
    using assms(1) by (simp_all add: round64_mono round64_nonNegative)
qed

lemma calculateImageSize_monotone:
  assumes "0 < nw" "0 < nh" "0 < mw1" "0 < mh1" "mw1 \<le> mw2" "mh1 \<le> mh2"
  shows "jsLessEq (width (calculateImageSize (Finite nw) (Finite nh) (Finite mw1) (Finite mh1)))
                  (width (calculateImageSize (Finite nw) (Finite nh) (Finite mw2) (Finite mh2)))"
    and "jsLessEq (height (calculateImageSize (Finite nw) (Finite nh) (Finite mw1) (Finite mh1)))
                  (height (calculateImageSize (Finite nw) (Finite nh) (Finite mw2) (Finite mh2)))"
proof -
  note w = jsDiv_mono [OF assms(1,3,5)]
  note h = jsDiv_mono [OF assms(2,4,6)]
  let ?s1 = "jsMin (jsDiv (Finite mw1) (Finite nw)) (jsDiv (Finite mh1) (Finite nh))"
  let ?s2 = "jsMin (jsDiv (Finite mw2) (Finite nw)) (jsDiv (Finite mh2) (Finite nh))"
  have s: "jsLessEq ?s1 ?s2" by (rule jsMin_mono [OF w(2) h(2) w(3) h(3) w(1) h(1)])
  have n1: "nonNegative ?s1" by (rule jsMin_nonNegative [OF w(2) h(2)])
  have n2: "nonNegative ?s2" by (rule jsMin_nonNegative [OF w(3) h(3)])
  show "jsLessEq (width (calculateImageSize (Finite nw) (Finite nh) (Finite mw1) (Finite mh1)))
                  (width (calculateImageSize (Finite nw) (Finite nh) (Finite mw2) (Finite mh2)))"
    using jsMul_mono [OF assms(1) n1 n2 s]
    by (simp add: calculateImageSize_def Let_def del: jsDiv.simps jsMul.simps jsMin.simps)
  show "jsLessEq (height (calculateImageSize (Finite nw) (Finite nh) (Finite mw1) (Finite mh1)))
                  (height (calculateImageSize (Finite nw) (Finite nh) (Finite mw2) (Finite mh2)))"
    using jsMul_mono [OF assms(2) n1 n2 s]
    by (simp add: calculateImageSize_def Let_def del: jsDiv.simps jsMul.simps jsMin.simps)
qed

lemma min_mult_pos_k: "0 < (k::real) \<Longrightarrow> min (k * a) (k * b) = k * min a b"
  by (auto simp: min_def)

lemma homogeneous_bounds:
  fixes k w1 wk A u :: real
  assumes k: "0 < k" and u: "0 < u" "u < 1" and A: "0 < A"
    and w1: "A * (1 - u)\<^sup>2 \<le> w1" "w1 \<le> A * (1 + u)\<^sup>2"
    and wk: "k * A * (1 - u)\<^sup>2 \<le> wk" "wk \<le> k * A * (1 + u)\<^sup>2"
  shows "k * w1 * ((1 - u) / (1 + u))\<^sup>2 \<le> wk" and "wk \<le> k * w1 * ((1 + u) / (1 - u))\<^sup>2"
proof -
  have u1: "0 < 1 - u" and u2: "0 < 1 + u" using u by simp_all
  have p1: "0 < (1 - u)\<^sup>2" and p2: "0 < (1 + u)\<^sup>2" using u1 u2 by simp_all
  have r1: "0 \<le> ((1 - u) / (1 + u))\<^sup>2" and r2: "0 \<le> ((1 + u) / (1 - u))\<^sup>2" by simp_all
  have "k * w1 \<le> k * (A * (1 + u)\<^sup>2)" by (rule mult_left_mono) (use w1(2) k in simp_all)
  then have "k * w1 * ((1 - u) / (1 + u))\<^sup>2 \<le> k * (A * (1 + u)\<^sup>2) * ((1 - u) / (1 + u))\<^sup>2"
    by (rule mult_right_mono [OF _ r1])
  moreover have "k * (A * (1 + u)\<^sup>2) * ((1 - u) / (1 + u))\<^sup>2 = k * A * (1 - u)\<^sup>2"
    using u2 by (simp add: power_divide)
  ultimately show "k * w1 * ((1 - u) / (1 + u))\<^sup>2 \<le> wk" using wk(1) by linarith
  have "k * (A * (1 - u)\<^sup>2) \<le> k * w1" by (rule mult_left_mono) (use w1(1) k in simp_all)
  then have "k * (A * (1 - u)\<^sup>2) * ((1 + u) / (1 - u))\<^sup>2 \<le> k * w1 * ((1 + u) / (1 - u))\<^sup>2"
    by (rule mult_right_mono [OF _ r2])
  moreover have "k * (A * (1 - u)\<^sup>2) * ((1 + u) / (1 - u))\<^sup>2 = k * A * (1 + u)\<^sup>2"
    using u1 by (simp add: power_divide)
  ultimately show "wk \<le> k * w1 * ((1 + u) / (1 - u))\<^sup>2" using wk(2) by linarith
qed

section \<open>Machine arithmetic at concrete values\<close>

text \<open>
  The results of single operations on the numbers that occur in the sample runs, each
  checked against the rounding rule: the exact result lies within half a unit in the last
  place of the stated value, or halfway to it with the stated value even.
\<close>

lemma machine_1: "jsMul (Finite 2) (Finite 72) = Finite 144"
  using round64_eval [of "2 * 72" 45 5066549580791808] by simp

lemma machine_2: "jsSub (Finite 1920) (Finite 144) = Finite 1776"
  using round64_eval [of "1920 - 144" 42 7810930603720704] by (simp add: jsSub_def negate_def)

lemma machine_3: "jsSub (Finite 1080) (Finite 144) = Finite 936"
  using round64_eval [of "1080 - 144" 43 8233143068786688] by (simp add: jsSub_def negate_def)

lemma machine_4: "jsSub (Finite 936) (Finite 80) = Finite 856"
  using round64_eval [of "936 - 80" 43 7529455627010048] by (simp add: jsSub_def negate_def)

lemma machine_5: "jsDiv (Finite 1920) (Finite 2) = Finite 960"
  using round64_eval [of "1920 / 2" 43 8444249301319680] by simp

lemma machine_6: "jsDiv (Finite 1080) (Finite 2) = Finite 540"
  using round64_eval [of "1080 / 2" 43 4749890231992320] by simp

lemma machine_7: "jsSub (Finite 540) (Finite 80) = Finite 460"
  using round64_eval [of "540 - 80" 44 8092405580431360] by (simp add: jsSub_def negate_def)

lemma machine_8: "jsSub (Finite 540) (Finite 50) = Finite 490"
  using round64_eval [of "540 - 50" 44 8620171161763840] by (simp add: jsSub_def negate_def)

lemma machine_9: "jsSub (Finite 540) (Finite 20) = Finite 520"
  using round64_eval [of "540 - 20" 43 4573968371548160] by (simp add: jsSub_def negate_def)

lemma machine_10: "jsDiv (Finite 1776) (Finite 4000) = Finite (7998392938210001 / 18014398509481984)"
  using round64_eval [of "1776 / 4000" 54 7998392938210001] by simp

lemma machine_11: "jsDiv (Finite 856) (Finite 3000) = Finite (2570054187352763 / 9007199254740992)"
  using round64_eval [of "856 / 3000" 54 5140108374705526] by simp

lemma machine_12: "jsMul (Finite 4000) (Finite (2570054187352763 / 9007199254740992)) = Finite (5019637084673365 / 4398046511104)"
  using round64_eval [of "4000 * (2570054187352763 / 9007199254740992)" 42 5019637084673365] by simp

lemma machine_13: "jsMul (Finite 3000) (Finite (2570054187352763 / 9007199254740992)) = Finite 856"
  using round64_eval [of "3000 * (2570054187352763 / 9007199254740992)" 43 7529455627010048] by simp

lemma machine_14: "jsAdd (Finite 72) (Finite 856) = Finite 928"
  using round64_eval [of "72 + 856" 43 8162774324609024] by simp

lemma machine_15: "jsAdd (Finite 928) (Finite 30) = Finite 958"
  using round64_eval [of "928 + 30" 43 8426657115275264] by simp

lemma machine_16: "jsDiv (Finite 1776) (Finite 1080) = Finite (3702959693615741 / 2251799813685248)"
  using round64_eval [of "1776 / 1080" 52 7405919387231482] by simp

lemma machine_17: "jsDiv (Finite 856) (Finite 1350) = Finite (5711231527450585 / 9007199254740992)"
  using round64_eval [of "856 / 1350" 53 5711231527450585] by simp

lemma machine_18: "jsMul (Finite 1080) (Finite (5711231527450585 / 9007199254740992)) = Finite (6023564501608039 / 8796093022208)"
  using round64_eval [of "1080 * (5711231527450585 / 9007199254740992)" 43 6023564501608039] by simp

lemma machine_19: "jsMul (Finite 1350) (Finite (5711231527450585 / 9007199254740992)) = Finite (7529455627010049 / 8796093022208)"
  using round64_eval [of "1350 * (5711231527450585 / 9007199254740992)" 43 7529455627010049] by simp

lemma machine_20: "jsAdd (Finite 72) (Finite (7529455627010049 / 8796093022208)) = Finite (8162774324609025 / 8796093022208)"
  using round64_eval [of "72 + (7529455627010049 / 8796093022208)" 43 8162774324609025] by simp

lemma machine_21: "jsAdd (Finite (8162774324609025 / 8796093022208)) (Finite 30) = Finite (8426657115275265 / 8796093022208)"
  using round64_eval [of "(8162774324609025 / 8796093022208) + 30" 43 8426657115275265] by simp

lemma machine_22: "jsDiv (Finite 1776) (Finite (6023564501608039 / 8796093022208)) = Finite (5839948114931367 / 2251799813685248)"
  using round64_eval [of "1776 / (6023564501608039 / 8796093022208)" 51 5839948114931367] by simp

lemma machine_23: "jsDiv (Finite 856) (Finite (7529455627010049 / 8796093022208)) = Finite (9007199254740991 / 9007199254740992)"
  using round64_eval [of "856 / (7529455627010049 / 8796093022208)" 53 9007199254740991] by simp

lemma machine_24: "jsMul (Finite (6023564501608039 / 8796093022208)) (Finite (9007199254740991 / 9007199254740992)) = Finite (3011782250804019 / 4398046511104)"
  using round64_eval [of "(6023564501608039 / 8796093022208) * (9007199254740991 / 9007199254740992)" 43 6023564501608038] by simp

lemma machine_25: "jsMul (Finite (7529455627010049 / 8796093022208)) (Finite (9007199254740991 / 9007199254740992)) = Finite 856"
  using round64_eval [of "(7529455627010049 / 8796093022208) * (9007199254740991 / 9007199254740992)" 43 7529455627010048] by simp

lemma machine_26: "jsDiv (Finite 1776) (Finite 3000) = Finite (5332261958806667 / 9007199254740992)"
  using round64_eval [of "1776 / 3000" 53 5332261958806667] by simp

lemma machine_27: "jsDiv (Finite 856) (Finite 800) = Finite (4818851601286431 / 4503599627370496)"
  using round64_eval [of "856 / 800" 52 4818851601286431] by simp

lemma machine_28: "jsMul (Finite 3000) (Finite (5332261958806667 / 9007199254740992)) = Finite 1776"
  using round64_eval [of "3000 * (5332261958806667 / 9007199254740992)" 42 7810930603720704] by simp

lemma machine_29: "jsMul (Finite 800) (Finite (5332261958806667 / 9007199254740992)) = Finite (8331659310635417 / 17592186044416)"
  using round64_eval [of "800 * (5332261958806667 / 9007199254740992)" 44 8331659310635417] by simp

lemma machine_30: "jsAdd (Finite 72) (Finite (8331659310635417 / 17592186044416)) = Finite (1199787088229171 / 2199023255552)"
  using round64_eval_tie_down [of "72 + (8331659310635417 / 17592186044416)" 43 4799148352916684] by simp

lemma machine_31: "jsAdd (Finite (1199787088229171 / 2199023255552)) (Finite 30) = Finite (1265757785895731 / 2199023255552)"
  using round64_eval [of "(1199787088229171 / 2199023255552) + 30" 43 5063031143582924] by simp

lemma machine_32: "jsDiv (Finite 1776) (Finite 1920) = Finite (4165829655317709 / 4503599627370496)"
  using round64_eval [of "1776 / 1920" 53 8331659310635418] by simp

lemma machine_33: "jsDiv (Finite 856) (Finite 1080) = Finite (7139039409313231 / 9007199254740992)"
  using round64_eval [of "856 / 1080" 53 7139039409313231] by simp

lemma machine_34: "jsMul (Finite 1920) (Finite (7139039409313231 / 9007199254740992)) = Finite (3346424723115577 / 2199023255552)"
  using round64_eval [of "1920 * (7139039409313231 / 9007199254740992)" 42 6692849446231154] by simp

lemma machine_35: "jsMul (Finite 1080) (Finite (7139039409313231 / 9007199254740992)) = Finite 856"
  using round64_eval [of "1080 * (7139039409313231 / 9007199254740992)" 43 7529455627010048] by simp

lemma machine_36: "jsDiv (Finite 5328) (Finite 1920) = Finite (6248744482976563 / 2251799813685248)"
  using round64_eval [of "5328 / 1920" 51 6248744482976563] by simp

lemma machine_37: "jsDiv (Finite 2568) (Finite 1080) = Finite (5354279556984923 / 2251799813685248)"
  using round64_eval [of "2568 / 1080" 51 5354279556984923] by simp

lemma machine_38: "jsMul (Finite 1920) (Finite (5354279556984923 / 2251799813685248)) = Finite (5019637084673365 / 1099511627776)"
  using round64_eval [of "1920 * (5354279556984923 / 2251799813685248)" 40 5019637084673365] by simp

lemma machine_39: "jsMul (Finite 1080) (Finite (5354279556984923 / 2251799813685248)) = Finite 2568"
  using round64_eval [of "1080 * (5354279556984923 / 2251799813685248)" 41 5647091720257536] by simp

lemma machine_40: "jsMul (Finite 3) (Finite (3346424723115577 / 2199023255552)) = Finite (2509818542336683 / 549755813888)"
  using round64_eval_tie_up [of "3 * (3346424723115577 / 2199023255552)" 40 5019637084673366] by simp

lemmas machine_evals = machine_1 machine_2 machine_3 machine_4 machine_5 machine_6 machine_7 machine_8 machine_9 machine_10 machine_11 machine_12 machine_13 machine_14 machine_15 machine_16 machine_17 machine_18 machine_19 machine_20 machine_21 machine_22 machine_23 machine_24 machine_25 machine_26 machine_27 machine_28 machine_29 machine_30 machine_31 machine_32 machine_33 machine_34 machine_35 machine_36 machine_37 machine_38 machine_39 machine_40

lemma calculateImageSize_4000_3000:
  "calculateImageSize (Finite 4000) (Finite 3000) (Finite 1776) (Finite 856)
     = \<lparr> width = Finite (5019637084673365 / 4398046511104), height = Finite 856 \<rparr>"
  by (simp add: calculateImageSize_def Let_def machine_evals
        del: jsDiv.simps jsMul.simps jsAdd.simps)

lemma calculateImageSize_1080_1350:
  "calculateImageSize (Finite 1080) (Finite 1350) (Finite 1776) (Finite 856)
     = \<lparr> width = Finite (6023564501608039 / 8796093022208), height = Finite (7529455627010049 / 8796093022208) \<rparr>"
  by (simp add: calculateImageSize_def Let_def machine_evals
        del: jsDiv.simps jsMul.simps jsAdd.simps)

lemma calculateImageSize_again:
  "calculateImageSize (Finite (6023564501608039 / 8796093022208)) (Finite (7529455627010049 / 8796093022208)) (Finite 1776) (Finite 856)
     = \<lparr> width = Finite (3011782250804019 / 4398046511104), height = Finite 856 \<rparr>"
  by (simp add: calculateImageSize_def Let_def machine_evals
        del: jsDiv.simps jsMul.simps jsAdd.simps)

lemma calculateImageSize_3000_800:
  "calculateImageSize (Finite 3000) (Finite 800) (Finite 1776) (Finite 856)
     = \<lparr> width = Finite 1776, height = Finite (8331659310635417 / 17592186044416) \<rparr>"
  by (simp add: calculateImageSize_def Let_def machine_evals
        del: jsDiv.simps jsMul.simps jsAdd.simps)

lemma calculateImageSize_1920_1080:
  "calculateImageSize (Finite 1920) (Finite 1080) (Finite 1776) (Finite 856)
     = \<lparr> width = Finite (3346424723115577 / 2199023255552), height = Finite 856 \<rparr>"
  by (simp add: calculateImageSize_def Let_def machine_evals
        del: jsDiv.simps jsMul.simps jsAdd.simps)

lemma calculateImageSize_1920_1080_triple:
  "calculateImageSize (Finite 1920) (Finite 1080) (Finite 5328) (Finite 2568)
     = \<lparr> width = Finite (5019637084673365 / 1099511627776), height = Finite 2568 \<rparr>"
  by (simp add: calculateImageSize_def Let_def machine_evals
        del: jsDiv.simps jsMul.simps jsAdd.simps)

section \<open>Effects only append\<close>

lemma emit_fields [simp]:
  "doc (emit c st) = doc st @ [c]"
  "console (emit c st) = console st"
  "fileio (emit c st) = fileio st"
  "written (emit c st) = written st"
  "pendingError (emit c st) = pendingError st"
  by (simp_all add: emit_def)

lemma logLine_fields [simp]:
  "doc (logLine l st) = doc st"
  "console (logLine l st) = console st @ [l]"
  "fileio (logLine l st) = fileio st"
  "written (logLine l st) = written st"
  "pendingError (logLine l st) = pendingError st"
  by (simp_all add: logLine_def)

lemma fileAccess_fields [simp]:
  "doc (fileAccess e st) = doc st"
  "console (fileAccess e st) = console st"
  "fileio (fileAccess e st) = fileio st @ [e]"
  "written (fileAccess e st) = written st"
  "pendingError (fileAccess e st) = pendingError st"
  by (simp_all add: fileAccess_def)

lemma emptyState_fields [simp]:
  "doc emptyState = []" "console emptyState = []" "fileio emptyState = []"
  "written emptyState = []" "pendingError emptyState = None"
  by (simp_all add: emptyState_def)

lemma appendState_empty: "pendingError st = None \<Longrightarrow> appendState st emptyState = st"
  by (simp add: appendState_def emptyState_def)

lemma appendState_fields [simp]:
  "doc (appendState st d) = doc st @ doc d"
  "console (appendState st d) = console st @ console d"
  "fileio (appendState st d) = fileio st @ fileio d"
  "written (appendState st d) = written st @ written d"
  "pendingError (appendState st d) = pendingError st"
  by (simp_all add: appendState_def)

lemma emit_appendState: "emit c (appendState st d) = appendState st (emit c d)"
  by (simp add: emit_def appendState_def)

lemma logLine_appendState: "logLine l (appendState st d) = appendState st (logLine l d)"
  by (simp add: logLine_def appendState_def)

lemma fileAccess_appendState: "fileAccess e (appendState st d) = appendState st (fileAccess e d)"
  by (simp add: fileAccess_def appendState_def)

lemmas effect_appendState = emit_appendState logLine_appendState fileAccess_appendState

lemma getImageDimensions_appendState:
  "pendingError st = pendingError d \<Longrightarrow>
   getImageDimensions env p (appendState st d) =
     (fst (getImageDimensions env p d), appendState st (snd (getImageDimensions env p d)))"
  by (simp add: getImageDimensions_def Let_def effect_appendState
        split: sum.splits option.splits prod.splits)

lemma addImageSlide_appendState:
  "pendingError st = pendingError d \<Longrightarrow>
   addImageSlide env imageData (appendState st d) =
     (fst (addImageSlide env imageData d), appendState st (snd (addImageSlide env imageData d)))"
  by (simp add: addImageSlide_def getImageDimensions_appendState Let_def effect_appendState
        split: option.splits prod.splits Outcome.splits)

lemma imageIteration_appendState:
  "pendingError st = pendingError d \<Longrightarrow>
   imageIteration env config i (appendState st d) =
     (fst (imageIteration env config i d), appendState st (snd (imageIteration env config i d)))"
  by (simp add: imageIteration_def addImageSlide_appendState Let_def effect_appendState
        split: option.splits prod.splits Outcome.splits)

lemma imageIteration_shift:
  assumes "pendingError st = None"
  shows "imageIteration env config i st =
     (fst (imageIteration env config i emptyState),
      appendState st (snd (imageIteration env config i emptyState)))"
  using imageIteration_appendState [of st emptyState env config i] assms
  by (simp add: appendState_empty)

lemma addImageSlide_shift:
  assumes "pendingError st = None"
  shows "addImageSlide env imageData st =
     (fst (addImageSlide env imageData emptyState),
      appendState st (snd (addImageSlide env imageData emptyState)))"
  using addImageSlide_appendState [of st emptyState env imageData] assms
  by (simp add: appendState_empty)

text \<open>Without a pending \<open>error\<close> event every call returns, and none becomes pending.\<close>

lemma getImageDimensions_returns:
  assumes "pendingError st = None"
  shows "\<exists>r. fst (getImageDimensions env p st) = Returned r"
    and "pendingError (snd (getImageDimensions env p st)) = None"
  using assms
  by (simp_all add: getImageDimensions_def Let_def split: sum.splits option.splits prod.splits)

lemma addImageSlide_returns:
  assumes "pendingError st = None"
  shows "fst (addImageSlide env imageData st) = Returned ()"
    and "pendingError (snd (addImageSlide env imageData st)) = None"
  using assms
  by (simp_all add: addImageSlide_def getImageDimensions_def Let_def
        split: sum.splits option.splits prod.splits Outcome.splits)

lemma imageIteration_returns:
  assumes "pendingError st = None"
  shows "fst (imageIteration env config i st) = Returned ()"
    and "pendingError (snd (imageIteration env config i st)) = None"
proof -
  have "fst (imageIteration env config i st) = Returned ()
      \<and> pendingError (snd (imageIteration env config i st)) = None"
  proof (cases "images config ! i")
    case None
    then show ?thesis using assms by (simp add: imageIteration_def)
  next
    case (Some imageData)
    define st1 where "st1 = fileAccess (ExistsSync (src imageData)) st"
    have p: "pendingError st1 = None" using assms by (simp add: st1_def)
    obtain r st2 where e: "addImageSlide env imageData st1 = (r, st2)"
      by (cases "addImageSlide env imageData st1")
    from addImageSlide_returns [OF p, of env imageData] e
    have r: "r = Returned ()" "pendingError st2 = None" by simp_all
    show ?thesis
      using Some e r p assms by (simp add: imageIteration_def Let_def st1_def [symmetric])
  qed
  then show "fst (imageIteration env config i st) = Returned ()"
    and "pendingError (snd (imageIteration env config i st)) = None" by simp_all
qed

lemma imageIteration_written: "written (snd (imageIteration env config i st)) = written st"
  by (simp add: imageIteration_def addImageSlide_def getImageDimensions_def Let_def
        split: sum.splits option.splits prod.splits Outcome.splits)

lemma processImages_written: "written (snd (processImages env config i st)) = written st"
proof (induction env config i st rule: processImages.induct)
  case (1 env config i st)
  show ?case
  proof (cases "i < length (images config)")
    case False
    then show ?thesis by (subst processImages.simps) simp
  next
    case True
    obtain r st1 where it: "imageIteration env config i st = (r, st1)"
      by (cases "imageIteration env config i st")
    have w: "written st1 = written st"
      using imageIteration_written [of env config i st] by (simp add: it)
    show ?thesis
    proof (cases r)
      case (Uncaught e)
      then show ?thesis using True it w by (subst processImages.simps) simp
    next
      case (Returned u)
      then show ?thesis
        using True it w "1.IH" [OF True it [symmetric] Returned]
        by (subst processImages.simps) simp
    qed
  qed
qed

text \<open>The loop as a fold, when no \<open>error\<close> event is pending.\<close>

lemma processImages_fold:
  assumes "pendingError st = None"
  shows "processImages env config i st =
     (Returned (), fold (\<lambda>j s. snd (imageIteration env config j s)) [i..<length (images config)] st)"
  using assms
proof (induction env config i st rule: processImages.induct)
  case (1 env config i st)
  show ?case
  proof (cases "i < length (images config)")
    case False
    then show ?thesis by (subst processImages.simps) simp
  next
    case True
    obtain r st1 where it: "imageIteration env config i st = (r, st1)"
      by (cases "imageIteration env config i st")
    from imageIteration_returns [OF "1.prems", of env config i] it
    have r: "r = Returned ()" and p: "pendingError st1 = None" by simp_all
    have ih: "processImages env config (Suc i) st1 =
       (Returned (), fold (\<lambda>j s. snd (imageIteration env config j s))
                       [Suc i..<length (images config)] st1)"
      using "1.IH" [OF True it [symmetric] r p] by simp
    show ?thesis
      using True by (subst processImages.simps) (simp add: it r ih upt_conv_Cons)
  qed
qed

lemma fold_iteration:
  assumes "pendingError st = None"
  shows "doc (fold (\<lambda>j s. snd (imageIteration env config j s)) ks st) =
           doc st @ concat (map (iterationDoc env config) ks)"
    and "console (fold (\<lambda>j s. snd (imageIteration env config j s)) ks st) =
           console st @ concat (map (iterationConsole env config) ks)"
    and "fileio (fold (\<lambda>j s. snd (imageIteration env config j s)) ks st) =
           fileio st @ concat (map (iterationFileio env config) ks)"
    and "written (fold (\<lambda>j s. snd (imageIteration env config j s)) ks st) = written st"
    and "pendingError (fold (\<lambda>j s. snd (imageIteration env config j s)) ks st) = None"
  using assms
proof (induction ks arbitrary: st)
  case Nil
  {
    case 1 show ?case by simp
  next
    case 2 show ?case by simp
  next
    case 3 show ?case by simp
  next
    case 4 show ?case by simp
  next
    case 5 then show ?case by simp
  }
next
  case (Cons j ks)
  {
    case 1
    note p = imageIteration_returns(2) [OF 1, of env config j]
    show ?case
      using Cons.IH(1) [OF p] by (simp add: imageIteration_shift [OF 1] iterationDoc_def)
  next
    case 2
    note p = imageIteration_returns(2) [OF 2, of env config j]
    show ?case
      using Cons.IH(2) [OF p] by (simp add: imageIteration_shift [OF 2] iterationConsole_def)
  next
    case 3
    note p = imageIteration_returns(2) [OF 3, of env config j]
    show ?case
      using Cons.IH(3) [OF p] by (simp add: imageIteration_shift [OF 3] iterationFileio_def)
  next
    case 4
    note p = imageIteration_returns(2) [OF 4, of env config j]
    show ?case
      using Cons.IH(4) [OF p] by (simp add: imageIteration_written)
  next
    case 5
    note p = imageIteration_returns(2) [OF 5, of env config j]
    show ?case
      using Cons.IH(5) [OF p] by simp
  }
qed

section \<open>The image slide, case by case\<close>

lemma truthyOptNumber_iff: "truthyOptNumber x = (\<not> noDimension x)"
  by (cases x) (auto simp: truthyOptNumber_def truthyNumber_def noDimension_def split: number.splits)

lemmas effect_defs = emit_def logLine_def fileAccess_def emptyState_def

lemma slide_metadata_rejected:
  assumes "sharpMetadata env (src imageData) = Inl e"
  shows "snd (addImageSlide env imageData emptyState) =
     \<lparr> doc = [],
       console = [ErrorReadingImage (src imageData) e,
                  ErrorAddingImageSlide (src imageData) (CouldNotGetDimensionsFor (src imageData))],
       fileio = [ReadMetadata (src imageData)], written = [], pendingError = None \<rparr>"
  using assms by (simp add: addImageSlide_def getImageDimensions_def Let_def effect_defs)

lemma slide_no_dimensions:
  assumes "sharpMetadata env (src imageData) = Inr metadata"
    and "\<not> truthyOptNumber (metaWidth metadata) \<or> \<not> truthyOptNumber (metaHeight metadata)"
  shows "snd (addImageSlide env imageData emptyState) =
     \<lparr> doc = [],
       console = [ErrorReadingImage (src imageData) CouldNotReadImageDimensions,
                  ErrorAddingImageSlide (src imageData) (CouldNotGetDimensionsFor (src imageData))],
       fileio = [ReadMetadata (src imageData)], written = [], pendingError = None \<rparr>"
  using assms by (auto simp add: addImageSlide_def getImageDimensions_def Let_def effect_defs)

lemma slide_image_rejected:
  assumes "sharpMetadata env (src imageData) = Inr metadata"
    and "truthyOptNumber (metaWidth metadata)" "truthyOptNumber (metaHeight metadata)"
    and "pdfImage env (src imageData) = Some e"
  shows "snd (addImageSlide env imageData emptyState) =
     \<lparr> doc = [],
       console = [ErrorAddingImageSlide (src imageData) e],
       fileio = [ReadMetadata (src imageData), ReadImage (src imageData)],
       written = [], pendingError = None \<rparr>"
  using assms
  by (auto simp add: addImageSlide_def getImageDimensions_def Let_def effect_defs
        truthyOptNumber_def split: option.splits)

lemma slide_drawn:
  assumes "sharpMetadata env (src imageData) = Inr metadata"
    and "metaWidth metadata = Some w" "metaHeight metadata = Some h"
    and "truthyNumber w" "truthyNumber h"
    and "pdfImage env (src imageData) = None"
  shows "snd (addImageSlide env imageData emptyState) =
     \<lparr> doc = DrawImage (src imageData) MARGIN MARGIN
               \<lparr> fit = (jsSub PAGE_WIDTH (jsMul (Finite 2) MARGIN),
                        jsSub (jsSub PAGE_HEIGHT (jsMul (Finite 2) MARGIN)) (Finite 80)),
                 align = js ''center'', valign = js ''center'' \<rparr>
             # (case caption imageData of
                  None \<Rightarrow> []
                | Some c \<Rightarrow>
                    if c \<noteq> []
                    then [DrawText CAPTION_FONT_SIZE FONT c MARGIN
                            (jsAdd (jsAdd MARGIN
                                      (height (calculateImageSize w h
                                                 (jsSub PAGE_WIDTH (jsMul (Finite 2) MARGIN))
                                                 (jsSub (jsSub PAGE_HEIGHT (jsMul (Finite 2) MARGIN))
                                                    (Finite 80)))))
                               (Finite 30))
                            \<lparr> textWidth = jsSub PAGE_WIDTH (jsMul (Finite 2) MARGIN),
                              textAlign = js ''center'' \<rparr>]
                    else []),
       console = [],
       fileio = [ReadMetadata (src imageData), ReadImage (src imageData)],
       written = [], pendingError = None \<rparr>"
  using assms
  by (simp add: addImageSlide_def getImageDimensions_def Let_def effect_defs
        truthyOptNumber_def truthyString_def split: option.splits)

lemma slideDoc_cases:
  "slideDoc env imageData = [] \<or>
   (\<exists>im cs. slideDoc env imageData = im # cs \<and> isDrawImage im \<and> AddPage \<notin> set cs)"
  by (simp add: slideDoc_def addImageSlide_def getImageDimensions_def Let_def
        split: sum.splits option.splits prod.splits)

lemma slideDoc_no_break: "AddPage \<notin> set (slideDoc env imageData)"
  using slideDoc_cases [of env imageData] by auto

lemma validReadable_drawn:
  assumes "validReadable env (Some imageData)"
  shows "console (snd (addImageSlide env imageData emptyState)) = []"
    and "slideDoc env imageData \<noteq> []"
    and "last (slideDoc env imageData) \<noteq> AddPage"
    and "isDrawImage (hd (slideDoc env imageData))"
proof -
  from assms obtain metadata where m: "sharpMetadata env (src imageData) = Inr metadata"
    and t: "truthyOptNumber (metaWidth metadata)" "truthyOptNumber (metaHeight metadata)"
    and ok: "pdfImage env (src imageData) = None"
    by (auto simp: validReadable_def truthyOptNumber_iff split: sum.splits)
  from t obtain w h where wh: "metaWidth metadata = Some w" "metaHeight metadata = Some h"
    "truthyNumber w" "truthyNumber h"
    by (auto simp: truthyOptNumber_def split: option.splits)
  note d = slide_drawn [OF m wh ok]
  show "console (snd (addImageSlide env imageData emptyState)) = []"
    unfolding d by simp
  show "slideDoc env imageData \<noteq> []"
    unfolding slideDoc_def d by simp
  show "last (slideDoc env imageData) \<noteq> AddPage"
    unfolding slideDoc_def d by (simp split: option.splits)
  show "isDrawImage (hd (slideDoc env imageData))"
    unfolding slideDoc_def d by simp
qed

section \<open>The loop, case by case\<close>

lemma iteration_undefined:
  assumes "images config ! i = None"
  shows "iterationDoc env config i = []"
    and "iterationConsole env config i = [WarnUndefinedEntry i]"
    and "iterationFileio env config i = []"
  using assms
  by (simp_all add: iterationDoc_def iterationConsole_def iterationFileio_def imageIteration_def)

lemma iteration_missing:
  assumes "images config ! i = Some imageData" "\<not> existsSync env (src imageData)"
  shows "iterationDoc env config i = []"
    and "iterationConsole env config i = [WarnNotFound (src imageData)]"
    and "iterationFileio env config i = [ExistsSync (src imageData)]"
  using assms
  by (simp_all add: iterationDoc_def iterationConsole_def iterationFileio_def imageIteration_def
        Let_def)

lemma iteration_present:
  assumes "images config ! i = Some imageData" "existsSync env (src imageData)"
    "i < length (images config)"
  shows "iterationDoc env config i =
           slideDoc env imageData @ (if i < length (images config) - 1 then [AddPage] else [])"
    and "iterationConsole env config i = console (snd (addImageSlide env imageData emptyState))"
    and "iterationFileio env config i =
           ExistsSync (src imageData) # fileio (snd (addImageSlide env imageData emptyState))"
proof -
  define st1 where "st1 = fileAccess (ExistsSync (src imageData)) emptyState"
  define d where "d = snd (addImageSlide env imageData emptyState)"
  have c: "(int i < int (length (images config)) - 1) = (i < length (images config) - 1)"
    using assms(3) by auto
  have p: "pendingError st1 = None" by (simp add: st1_def)
  have r: "fst (addImageSlide env imageData emptyState) = Returned ()"
    by (rule addImageSlide_returns(1)) simp
  have sh: "addImageSlide env imageData st1 = (Returned (), appendState st1 d)"
    using addImageSlide_shift [OF p, of env imageData] r by (simp add: d_def)
  have it: "snd (imageIteration env config i emptyState) =
      (if i < length (images config) - 1 then emit AddPage (appendState st1 d)
       else appendState st1 d)"
    using assms(1,2) by (simp add: imageIteration_def Let_def c st1_def [symmetric] sh)
  show "iterationDoc env config i =
           slideDoc env imageData @ (if i < length (images config) - 1 then [AddPage] else [])"
    unfolding iterationDoc_def it by (simp add: st1_def d_def slideDoc_def)
  show "iterationConsole env config i = console (snd (addImageSlide env imageData emptyState))"
    unfolding iterationConsole_def it by (simp add: st1_def d_def)
  show "iterationFileio env config i =
           ExistsSync (src imageData) # fileio (snd (addImageSlide env imageData emptyState))"
    unfolding iterationFileio_def it by (simp add: st1_def d_def)
qed

lemma iteration_valid:
  assumes "i < length (images config)" "validReadable env (images config ! i)"
  shows "\<exists>slide. iterationDoc env config i
                   = slide @ (if i < length (images config) - 1 then [AddPage] else [])
           \<and> AddPage \<notin> set slide \<and> slide \<noteq> [] \<and> last slide \<noteq> AddPage"
proof -
  obtain imageData where e: "images config ! i = Some imageData"
    and ex: "existsSync env (src imageData)"
    using assms(2) by (auto simp: validReadable_def split: option.splits)
  have v: "validReadable env (Some imageData)" using assms(2) e by simp
  show ?thesis
    using iteration_present(1) [OF e ex assms(1)] slideDoc_no_break [of env imageData]
      validReadable_drawn(2,3) [OF v]
    by blast
qed

section \<open>A pending error event\<close>

lemma imageIteration_pending:
  assumes "pendingError st = Some e"
  shows "present env (images config ! i) \<Longrightarrow> fst (imageIteration env config i st) = Uncaught e"
    and "\<not> present env (images config ! i) \<Longrightarrow> fst (imageIteration env config i st) = Returned ()"
    and "\<not> present env (images config ! i) \<Longrightarrow>
           pendingError (snd (imageIteration env config i st)) = Some e"
proof -
  show "fst (imageIteration env config i st) = Uncaught e" if "present env (images config ! i)"
  proof -
    from that obtain imageData where "images config ! i = Some imageData"
      "existsSync env (src imageData)"
      by (auto simp: present_def split: option.splits)
    then show ?thesis
      using assms
      by (simp add: imageIteration_def addImageSlide_def getImageDimensions_def Let_def)
  qed
  show "fst (imageIteration env config i st) = Returned ()"
    if "\<not> present env (images config ! i)"
    using that by (cases "images config ! i") (simp_all add: imageIteration_def Let_def present_def)
  show "pendingError (snd (imageIteration env config i st)) = Some e"
    if "\<not> present env (images config ! i)"
    using that assms
    by (cases "images config ! i") (simp_all add: imageIteration_def Let_def present_def)
qed

lemma processImages_pending:
  assumes "pendingError st = Some e"
  shows "fst (processImages env config i st) =
           (if list_ex (present env) (drop i (images config)) then Uncaught e else Returned ())"
  using assms
proof (induction env config i st rule: processImages.induct)
  case (1 env config i st)
  show ?case
  proof (cases "i < length (images config)")
    case False
    then show ?thesis by (subst processImages.simps) simp
  next
    case True
    have dr: "drop i (images config) = images config ! i # drop (Suc i) (images config)"
      using True by (simp add: Cons_nth_drop_Suc)
    obtain r st1 where it: "imageIteration env config i st = (r, st1)"
      by (cases "imageIteration env config i st")
    show ?thesis
    proof (cases "present env (images config ! i)")
      case True
      with imageIteration_pending(1) [OF "1.prems", of env config i] it
      have "r = Uncaught e" by simp
      then show ?thesis
        using \<open>i < length (images config)\<close> True it
        by (subst processImages.simps) (simp add: dr)
    next
      case False
      with imageIteration_pending(2,3) [OF "1.prems", of env config i] it
      have r: "r = Returned ()" and p: "pendingError st1 = Some e" by simp_all
      have ih: "fst (processImages env config (Suc i) st1) =
          (if list_ex (present env) (drop (Suc i) (images config)) then Uncaught e else Returned ())"
        using "1.IH" [OF \<open>i < length (images config)\<close> it [symmetric] r p] by simp
      show ?thesis
        using \<open>i < length (images config)\<close> False it r ih
        by (subst processImages.simps) (simp add: dr)
    qed
  qed
qed

section \<open>The assembler as a whole\<close>

lemma addTitleSlide_doc:
  "doc (addTitleSlide ttl sub st) = doc st @ doc (addTitleSlide ttl sub emptyState)"
  by (simp add: addTitleSlide_def Let_def split: option.splits)

lemma addTitleSlide_other [simp]:
  "console (addTitleSlide ttl sub st) = console st"
  "fileio (addTitleSlide ttl sub st) = fileio st"
  "written (addTitleSlide ttl sub st) = written st"
  "pendingError (addTitleSlide ttl sub st) = pendingError st"
  by (simp_all add: addTitleSlide_def Let_def split: option.splits)

lemma createPdfSlideshow_result:
  "fst (createPdfSlideshow env config name st) =
     (case streamResult env (js ''./dist/'' @ name) of
        Finish \<Rightarrow> Returned True
      | ErrorAfterEnd e \<Rightarrow> Returned False
      | ErrorOnOpen e \<Rightarrow>
          if list_ex (present env) (images config) then Uncaught e else Returned False)"
proof -
  define path where "path = js ''./dist/'' @ name"
  define st2 where "st2 = (fileAccess (CreateWriteStream path) (st \<lparr> doc := [] \<rparr>))
                  \<lparr> pendingError := (case streamResult env path of
                         ErrorOnOpen e \<Rightarrow> Some e | _ \<Rightarrow> None) \<rparr>"
  define st3 where "st3 = (if truthyString (title config)
                 then emit AddPage (addTitleSlide (title config) (Some (subtitle config)) st2)
                 else st2)"
  obtain r st4 where pr: "processImages env config 0 st3 = (r, st4)"
    by (cases "processImages env config 0 st3")
  have p3: "pendingError st3 = (case streamResult env path of
                         ErrorOnOpen e \<Rightarrow> Some e | _ \<Rightarrow> None)"
    by (simp add: st3_def st2_def)
  have r: "r = (case streamResult env path of
                  ErrorOnOpen e \<Rightarrow>
                    if list_ex (present env) (images config) then Uncaught e else Returned ()
                | _ \<Rightarrow> Returned ())"
  proof (cases "streamResult env path")
    case Finish
    then have "pendingError st3 = None" by (simp add: p3)
    from processImages_fold [OF this, of env config 0] pr Finish show ?thesis by simp
  next
    case (ErrorAfterEnd e)
    then have "pendingError st3 = None" by (simp add: p3)
    from processImages_fold [OF this, of env config 0] pr ErrorAfterEnd show ?thesis by simp
  next
    case (ErrorOnOpen e)
    then have "pendingError st3 = Some e" by (simp add: p3)
    from processImages_pending [OF this, of env config 0] pr ErrorOnOpen show ?thesis by simp
  qed
  show ?thesis
    unfolding createPdfSlideshow_def Let_def path_def [symmetric]
      st2_def [symmetric] st3_def [symmetric] pr
    using r by (simp split: StreamOutcome.splits)
qed

lemma createPdfSlideshow_opens:
  assumes "opens env (js ''./dist/'' @ name)"
  shows "doc (snd (createPdfSlideshow env config name st)) =
           (if title config \<noteq> [] then titleDoc config @ [AddPage] else [])
           @ concat (map (iterationDoc env config) [0..<length (images config)])"
    and "console (snd (createPdfSlideshow env config name st)) =
           console st
           @ concat (map (iterationConsole env config) [0..<length (images config)])
           @ [case streamResult env (js ''./dist/'' @ name) of
                Finish \<Rightarrow> LogPdfCreated name
              | ErrorOnOpen e \<Rightarrow> ErrorCreatingPdf e
              | ErrorAfterEnd e \<Rightarrow> ErrorCreatingPdf e]"
    and "fileio (snd (createPdfSlideshow env config name st)) =
           fileio st @ CreateWriteStream (js ''./dist/'' @ name)
           # concat (map (iterationFileio env config) [0..<length (images config)])"
proof -
  define path where "path = js ''./dist/'' @ name"
  define st2 where "st2 = (fileAccess (CreateWriteStream path) (st \<lparr> doc := [] \<rparr>))
                  \<lparr> pendingError := None \<rparr>"
  define st3 where "st3 = (if truthyString (title config)
                 then emit AddPage (addTitleSlide (title config) (Some (subtitle config)) st2)
                 else st2)"
  define st4 where "st4 = fold (\<lambda>j s. snd (imageIteration env config j s))
                            [0..<length (images config)] st3"
  have pe: "(case streamResult env path of ErrorOnOpen e \<Rightarrow> Some e | _ \<Rightarrow> None) = None"
    using assms by (simp add: opens_def path_def split: StreamOutcome.splits)
  have p3: "pendingError st3 = None" by (simp add: st3_def st2_def)
  note f = fold_iteration [OF p3, of env config "[0..<length (images config)]", folded st4_def]
  have pr: "processImages env config 0 st3 = (Returned (), st4)"
    using processImages_fold [OF p3, of env config 0] by (simp add: st4_def)
  have d3: "doc st3 = (if title config \<noteq> [] then titleDoc config @ [AddPage] else [])"
    unfolding st3_def titleDoc_def
    by (simp add: truthyString_def st2_def addTitleSlide_doc [of _ _ "_ \<lparr> pendingError := None \<rparr>"])
  have c3: "console st3 = console st" by (simp add: st3_def st2_def)
  have f3: "fileio st3 = fileio st @ [CreateWriteStream path]" by (simp add: st3_def st2_def)
  have run: "snd (createPdfSlideshow env config name st) =
      (case streamResult env path of
         Finish \<Rightarrow> logLine (LogPdfCreated name) (st4 \<lparr> written := written st4 @ [(path, doc st4)] \<rparr>)
       | ErrorOnOpen e \<Rightarrow> logLine (ErrorCreatingPdf e) (st4 \<lparr> pendingError := None \<rparr>)
       | ErrorAfterEnd e \<Rightarrow> logLine (ErrorCreatingPdf e) st4)"
    unfolding createPdfSlideshow_def Let_def path_def [symmetric] pe
      st2_def [symmetric] st3_def [symmetric] pr
    by (simp split: StreamOutcome.splits)
  show "doc (snd (createPdfSlideshow env config name st)) =
           (if title config \<noteq> [] then titleDoc config @ [AddPage] else [])
           @ concat (map (iterationDoc env config) [0..<length (images config)])"
    unfolding run by (simp add: f(1) d3 split: StreamOutcome.splits)
  show "console (snd (createPdfSlideshow env config name st)) =
           console st
           @ concat (map (iterationConsole env config) [0..<length (images config)])
           @ [case streamResult env (js ''./dist/'' @ name) of
                Finish \<Rightarrow> LogPdfCreated name
              | ErrorOnOpen e \<Rightarrow> ErrorCreatingPdf e
              | ErrorAfterEnd e \<Rightarrow> ErrorCreatingPdf e]"
    unfolding run path_def [symmetric] by (simp add: f(2) c3 split: StreamOutcome.splits)
  show "fileio (snd (createPdfSlideshow env config name st)) =
           fileio st @ CreateWriteStream (js ''./dist/'' @ name)
           # concat (map (iterationFileio env config) [0..<length (images config)])"
    unfolding run path_def [symmetric] by (simp add: f(3) f3 split: StreamOutcome.splits)
qed

lemma createPdfSlideshow_written:
  "written (snd (createPdfSlideshow env config name st)) =
     written st
     @ (if streamResult env (js ''./dist/'' @ name) = Finish
        then [(js ''./dist/'' @ name, doc (snd (createPdfSlideshow env config name st)))]
        else [])"
proof -
  define path where "path = js ''./dist/'' @ name"
  define st2 where "st2 = (fileAccess (CreateWriteStream path) (st \<lparr> doc := [] \<rparr>))
                  \<lparr> pendingError := (case streamResult env path of
                         ErrorOnOpen e \<Rightarrow> Some e | _ \<Rightarrow> None) \<rparr>"
  define st3 where "st3 = (if truthyString (title config)
                 then emit AddPage (addTitleSlide (title config) (Some (subtitle config)) st2)
                 else st2)"
  obtain r st4 where pr: "processImages env config 0 st3 = (r, st4)"
    by (cases "processImages env config 0 st3")
  have "written st4 = written st3"
    using processImages_written [of env config 0 st3] by (simp add: pr)
  moreover have "written st3 = written st" by (simp add: st3_def st2_def)
  ultimately have w4: "written st4 = written st" by simp
  have r: "r = Returned ()" if "streamResult env path = Finish"
  proof -
    have "pendingError st3 = None" using that by (simp add: st3_def st2_def)
    from processImages_fold [OF this, of env config 0] pr show ?thesis by simp
  qed
  show ?thesis
    unfolding createPdfSlideshow_def Let_def path_def [symmetric]
      st2_def [symmetric] st3_def [symmetric] pr
    using w4 r by (cases r) (auto split: StreamOutcome.splits)
qed

section \<open>The entry point\<close>

lemma exitCode_case:
  "exitCode (case p of
               (Returned success, s) \<Rightarrow>
                 if success then \<lparr> exitCode = 0, final = A s \<rparr> else \<lparr> exitCode = 1, final = B s \<rparr>
             | (Uncaught e, s) \<Rightarrow> \<lparr> exitCode = 1, final = C e s \<rparr>)
     = (if fst p = Returned True then 0 else 1)"
  by (cases p) (simp split: Outcome.splits)

lemma final_case:
  "final (case p of
            (Returned success, s) \<Rightarrow>
              if success then \<lparr> exitCode = 0, final = A s \<rparr> else \<lparr> exitCode = 1, final = B s \<rparr>
          | (Uncaught e, s) \<Rightarrow> \<lparr> exitCode = 1, final = C e s \<rparr>)
     = (case fst p of
          Returned success \<Rightarrow> if success then A (snd p) else B (snd p)
        | Uncaught e \<Rightarrow> C e (snd p))"
  by (cases p) (simp split: Outcome.splits)

lemma createPdfSlideshow_success:
  "(fst (createPdfSlideshow env config name st) = Returned True)
     = (streamResult env (js ''./dist/'' @ name) = Finish)"
  by (simp add: createPdfSlideshow_result split: StreamOutcome.splits)

lemma main_exitCode:
  "exitCode (main env config) =
     (if images config = []
         \<or> streamResult env (js ''./dist/'' @ mainOutputFilename env config) \<noteq> Finish
      then 1 else 0)"
proof (cases "images config = []")
  case True
  then show ?thesis by (simp add: main_def Let_def)
next
  case False
  have "exitCode (main env config) =
     (if streamResult env (js ''./dist/'' @ mainOutputFilename env config) = Finish then 0 else 1)"
    unfolding main_def Let_def using False
    by (simp only: if_False exitCode_case createPdfSlideshow_success)
  then show ?thesis using False by simp
qed

lemma main_written:
  "written (final (main env config)) =
     (if images config \<noteq> []
         \<and> streamResult env (js ''./dist/'' @ mainOutputFilename env config) = Finish
      then [(js ''./dist/'' @ mainOutputFilename env config, doc (final (main env config)))]
      else [])"
proof (cases "images config = []")
  case True
  then show ?thesis by (simp add: main_def Let_def)
next
  case False
  define name where "name = mainOutputFilename env config"
  define path where "path = js ''./dist/'' @ name"
  have w: "written (snd (createPdfSlideshow env config name st)) =
      (if streamResult env path = Finish
       then [(path, doc (snd (createPdfSlideshow env config name st)))] else [])"
    if "written st = []" for st
    unfolding path_def using that by (subst createPdfSlideshow_written) simp
  have s: "fst (createPdfSlideshow env config name st) =
     (case streamResult env path of
        Finish \<Rightarrow> Returned True
      | ErrorAfterEnd e \<Rightarrow> Returned False
      | ErrorOnOpen e \<Rightarrow>
          if list_ex (present env) (images config) then Uncaught e else Returned False)" for st
    unfolding path_def by (rule createPdfSlideshow_result)
  have "written (final (main env config)) =
      (if streamResult env path = Finish then [(path, doc (final (main env config)))] else [])"
    unfolding main_def Let_def name_def [symmetric] using False
    apply (simp only: if_False final_case s)
    apply (simp add: w split: StreamOutcome.splits)
    done
  then show ?thesis using False by (simp add: name_def path_def)
qed

section \<open>Pages of a command stream\<close>

lemma pagesOf_nonempty [simp]: "pagesOf env cs \<noteq> []"
proof (induction cs)
  case Nil
  show ?case by simp
next
  case (Cons c cs)
  show ?case by (cases c) simp_all
qed

lemma length_pagesOf:
  "length (pagesOf env cs) = Suc (explicitBreaks cs + sum_list (map (breaksOf env) cs))"
proof (induction cs)
  case Nil
  show ?case by (simp add: explicitBreaks_def)
next
  case (Cons c cs)
  obtain p ps where "pagesOf env cs = p # ps"
    using pagesOf_nonempty [of env cs] by (cases "pagesOf env cs") auto
  with Cons show ?case by (cases c) (simp_all add: explicitBreaks_def breaksOf_def)
qed

lemma pagesOf_append_break:
  assumes "AddPage \<notin> set xs" "\<forall>c \<in> set xs. breaksOf env c = 0"
  shows "pagesOf env (xs @ AddPage # ys) = xs # pagesOf env ys"
  using assms
proof (induction xs)
  case Nil
  show ?case by simp
next
  case (Cons x xs)
  then show ?case by (cases x) (simp_all add: breaksOf_def)
qed

lemma hd_pagesOf_text:
  assumes "isDrawText c"
  shows "hd (pagesOf env (c # cs)) \<noteq> []" and "hd (hd (pagesOf env (c # cs))) = c"
proof -
  from assms obtain fs ff t x y opts where c: "c = DrawText fs ff t x y opts"
    by (cases c) simp_all
  have "hd (pagesOf env (c # cs)) \<noteq> [] \<and> hd (hd (pagesOf env (c # cs))) = c"
    unfolding c by (cases "textBreaks env (DrawText fs ff t x y opts)") simp_all
  then show "hd (pagesOf env (c # cs)) \<noteq> []" and "hd (hd (pagesOf env (c # cs))) = c"
    by simp_all
qed

lemma hd_pagesOf_other:
  assumes "cs = [] \<or> \<not> isDrawText (hd cs)"
  shows "hd (pagesOf env cs) = [] \<or> \<not> isDrawText (hd (hd (pagesOf env cs)))"
proof (cases cs)
  case Nil
  then show ?thesis by simp
next
  case (Cons c cs')
  with assms show ?thesis by (cases c) simp_all
qed

lemma concat_head:
  "(\<forall>cs \<in> set css. cs = [] \<or> \<not> isDrawText (hd cs))
     \<Longrightarrow> concat css = [] \<or> \<not> isDrawText (hd (concat css))"
  by (induction css) (auto simp: hd_append)

lemma iterationDoc_head:
  assumes "i < length (images config)"
  shows "iterationDoc env config i = [] \<or> \<not> isDrawText (hd (iterationDoc env config i))"
proof (cases "images config ! i")
  case None
  then show ?thesis by (simp add: iteration_undefined(1))
next
  case (Some imageData)
  show ?thesis
  proof (cases "existsSync env (src imageData)")
    case False
    then show ?thesis using Some by (simp add: iteration_missing(1))
  next
    case True
    show ?thesis
      using slideDoc_cases [of env imageData]
      by (auto simp add: iteration_present(1) [OF Some True assms])
  qed
qed

lemma titleDoc_head:
  "\<exists>c cs. titleDoc config = c # cs \<and> isDrawText c \<and> AddPage \<notin> set (c # cs)"
  by (simp add: titleDoc_def addTitleSlide_def Let_def split: option.splits)

lemma iterations_head:
  "concat (map (iterationDoc env config) [0..<length (images config)]) = []
   \<or> \<not> isDrawText (hd (concat (map (iterationDoc env config) [0..<length (images config)])))"
proof -
  have "\<forall>cs \<in> set (map (iterationDoc env config) [0..<length (images config)]).
          cs = [] \<or> \<not> isDrawText (hd cs)"
    using iterationDoc_head [of _ config env] by auto
  then show ?thesis by (rule concat_head)
qed

lemma first_page_begins:
  assumes "opens env (js ''./dist/'' @ name)"
  shows "(hd (pagesOf env (doc (snd (createPdfSlideshow env config name st)))) \<noteq> []
          \<and> hd (hd (pagesOf env (doc (snd (createPdfSlideshow env config name st)))))
              = hd (titleDoc config))
         = (title config \<noteq> [])"
proof -
  let ?X = "concat (map (iterationDoc env config) [0..<length (images config)])"
  obtain c cs where T: "titleDoc config = c # cs" and tx: "isDrawText c"
    using titleDoc_head [of config] by blast
  note d = createPdfSlideshow_opens(1) [OF assms, of config st]
  show ?thesis
  proof (cases "title config = []")
    case True
    then have e: "doc (snd (createPdfSlideshow env config name st)) = ?X" by (simp add: d)
    have "hd (pagesOf env ?X) = [] \<or> \<not> isDrawText (hd (hd (pagesOf env ?X)))"
      by (rule hd_pagesOf_other [OF iterations_head])
    then show ?thesis using True tx by (auto simp add: e T)
  next
    case False
    then have e: "doc (snd (createPdfSlideshow env config name st)) = c # (cs @ AddPage # ?X)"
      by (simp add: d T)
    show ?thesis using False hd_pagesOf_text [OF tx, of env "cs @ AddPage # ?X"] by (simp add: e T)
  qed
qed

lemma first_page_title:
  assumes "opens env (js ''./dist/'' @ name)" "title config \<noteq> []"
    and "\<forall>c \<in> set (titleDoc config). breaksOf env c = 0"
  shows "hd (pagesOf env (doc (snd (createPdfSlideshow env config name st)))) = titleDoc config"
proof -
  have nb: "AddPage \<notin> set (titleDoc config)" using titleDoc_head [of config] by auto
  have "doc (snd (createPdfSlideshow env config name st)) =
          titleDoc config @ AddPage # concat (map (iterationDoc env config) [0..<length (images config)])"
    using assms(2) by (simp add: createPdfSlideshow_opens(1) [OF assms(1)])
  then show ?thesis using pagesOf_append_break [OF nb assms(3)] by simp
qed

lemma explicitBreaks_append [simp]:
  "explicitBreaks (xs @ ys) = explicitBreaks xs + explicitBreaks ys"
  by (simp add: explicitBreaks_def)

lemma explicitBreaks_none: "AddPage \<notin> set cs \<Longrightarrow> explicitBreaks cs = 0"
  by (induction cs) (auto simp: explicitBreaks_def)

lemma explicitBreaks_single [simp]: "explicitBreaks [AddPage] = 1" "explicitBreaks [] = 0"
  by (simp_all add: explicitBreaks_def)

lemma explicitBreaks_concat:
  "(\<forall>j \<in> set ks. explicitBreaks (f j) = 1) \<Longrightarrow> explicitBreaks (concat (map f ks)) = length ks"
  by (induction ks) auto

lemma all_valid_stream:
  assumes ne: "images config \<noteq> []"
    and valid: "\<forall>i < length (images config). validReadable env (images config ! i)"
  shows "explicitBreaks (concat (map (iterationDoc env config) [0..<length (images config)]))
           = length (images config) - 1"
    and "concat (map (iterationDoc env config) [0..<length (images config)]) \<noteq> []"
    and "last (concat (map (iterationDoc env config) [0..<length (images config)])) \<noteq> AddPage"
proof -
  let ?n = "length (images config)"
  let ?f = "iterationDoc env config"
  define m where "m = ?n - 1"
  have n: "?n = Suc m" using ne by (simp add: m_def)
  have split: "[0..<?n] = [0..<m] @ [m]" by (simp add: n)
  have inner: "explicitBreaks (?f j) = 1" if "j \<in> set [0..<m]" for j
  proof -
    from that have j: "j < ?n - 1" and jn: "j < ?n" by (simp_all add: n)
    from valid jn have "validReadable env (images config ! j)" by simp
    from iteration_valid [OF jn this] j
    obtain slide where "?f j = slide @ [AddPage]" "AddPage \<notin> set slide" by auto
    then show ?thesis by (simp add: explicitBreaks_none)
  qed
  have mn: "m < ?n" and ml: "\<not> m < ?n - 1" by (simp_all add: n)
  from valid mn have "validReadable env (images config ! m)" by simp
  from iteration_valid [OF mn this] ml
  obtain slide where sl: "?f m = slide" "AddPage \<notin> set slide" "slide \<noteq> []" "last slide \<noteq> AddPage"
    by auto
  have c1: "explicitBreaks (concat (map ?f [0..<m])) = length [0..<m]"
    by (rule explicitBreaks_concat) (use inner in blast)
  have X: "concat (map ?f [0..<?n]) = concat (map ?f [0..<m]) @ slide"
    by (subst split) (simp add: sl(1))
  show "explicitBreaks (concat (map ?f [0..<?n])) = ?n - 1"
    unfolding X using c1 sl(2) by (simp add: explicitBreaks_none m_def)
  show "concat (map ?f [0..<?n]) \<noteq> []"
    unfolding X using sl(3) by simp
  show "last (concat (map ?f [0..<?n])) \<noteq> AddPage"
    unfolding X using sl(3,4) by simp
qed

lemma all_valid_pages:
  assumes op: "opens env (js ''./dist/'' @ name)"
    and ne: "images config \<noteq> []"
    and valid: "\<forall>i < length (images config). validReadable env (images config ! i)"
  shows "length (pagesOf env (doc (snd (createPdfSlideshow env config name st))))
           = (if title config \<noteq> [] then 1 else 0) + length (images config)
             + sum_list (map (breaksOf env) (doc (snd (createPdfSlideshow env config name st))))"
    and "doc (snd (createPdfSlideshow env config name st)) \<noteq> []"
    and "last (doc (snd (createPdfSlideshow env config name st))) \<noteq> AddPage"
proof -
  let ?X = "concat (map (iterationDoc env config) [0..<length (images config)])"
  note av = all_valid_stream [OF ne valid]
  note d = createPdfSlideshow_opens(1) [OF op, of config st]
  have nb: "explicitBreaks (titleDoc config) = 0"
    using titleDoc_head [of config] by (auto simp: explicitBreaks_none)
  have npos: "0 < length (images config)" using ne by simp
  have eb: "explicitBreaks (doc (snd (createPdfSlideshow env config name st)))
      = (if title config \<noteq> [] then 1 else 0) + length (images config) - 1"
    using npos by (simp add: d av(1) nb)
  show "length (pagesOf env (doc (snd (createPdfSlideshow env config name st))))
           = (if title config \<noteq> [] then 1 else 0) + length (images config)
             + sum_list (map (breaksOf env) (doc (snd (createPdfSlideshow env config name st))))"
    unfolding length_pagesOf eb using npos by simp
  show "doc (snd (createPdfSlideshow env config name st)) \<noteq> []"
    using av(2) by (simp add: d)
  show "last (doc (snd (createPdfSlideshow env config name st))) \<noteq> AddPage"
    using av(2,3) by (simp add: d)
qed

lemma sum_list_zero: "\<forall>c \<in> set cs. f c = (0::nat) \<Longrightarrow> sum_list (map f cs) = 0"
  by (induction cs) auto

section \<open>Strings of the file name\<close>

lemma js_append: "js (s @ t) = js s @ js t"
  by (simp add: js_def)

lemma isAlnum_alnumChars: "isAlnum c = (c \<in> set (js alnumChars))"
proof -
  define n where "n = unat c"
  have e: "(c = w) = (n = unat w)" for w by (simp add: n_def word_unat_eq_iff)
  have "((97 \<le> n \<and> n \<le> 122) \<or> (65 \<le> n \<and> n \<le> 90) \<or> (48 \<le> n \<and> n \<le> 57))
      = (n \<in> unat ` set (js alnumChars))"
    by (simp add: alnumChars_def js_def) arith
  moreover have "(c \<in> set (js alnumChars)) = (n \<in> unat ` set (js alnumChars))"
  proof -
    have "inj (unat :: 16 word \<Rightarrow> nat)" by (simp add: inj_def word_unat_eq_iff)
    then show ?thesis unfolding n_def by (simp add: inj_image_mem_iff)
  qed
  ultimately show ?thesis by (simp add: isAlnum_def n_def)
qed

lemma replaceNonAlnum_sanitize: "replaceNonAlnum s = specSanitize s"
  by (simp add: replaceNonAlnum_def specSanitize_def isAlnum_alnumChars)

lemma sanitize_default: "specSanitize (js ''slideshow'') = js ''slideshow''"
  by (simp add: specSanitize_def alnumChars_def js_def)

lemma sanitize_my_trip: "specSanitize (js ''My Trip!'') = js ''My_Trip_''"
  by (simp add: specSanitize_def alnumChars_def js_def)

lemma specSanitize_empty: "(specSanitize t = []) = (t = [])"
  by (cases t) (simp_all add: specSanitize_def js_def)

lemma baseName_sanitize:
  "(if truthyString (replaceNonAlnum t) then replaceNonAlnum t else js ''slideshow'')
     = specSanitize (if t = [] then js ''slideshow'' else t)"
proof (cases "t = []")
  case True
  then show ?thesis by (simp add: truthyString_def replaceNonAlnum_def sanitize_default)
next
  case False
  then show ?thesis by (simp add: truthyString_def replaceNonAlnum_sanitize specSanitize_empty)
qed

lemma characters_no_surrogates:
  "list_all (\<lambda>c. \<not> isHighSurrogate c) s \<Longrightarrow> characters s = map (\<lambda>c. [c]) s"
  by (induction s rule: characters.induct) simp_all

lemma sanitizeCharacters_no_surrogates:
  assumes "list_all (\<lambda>c. \<not> isHighSurrogate c) s"
  shows "sanitizeCharacters s = specSanitize s"
  unfolding sanitizeCharacters_def specSanitize_def characters_no_surrogates [OF assms]
  by (simp add: comp_def)

lemma isDigit_digitChar: "d < 10 \<Longrightarrow> isDigit (digitChar d)"
proof -
  assume "d < 10"
  then have "d \<in> {0, 1, 2, 3, 4, 5, 6, 7, 8, 9}" by auto
  then show ?thesis by (auto simp: isDigit_def digitChar_def js_def)
qed

lemma natToString_digits: "list_all isDigit (natToString n)"
proof (induction n rule: natToString.induct)
  case (1 n)
  show ?case
  proof (cases "n < 10")
    case True
    then show ?thesis by (subst natToString.simps) (simp add: isDigit_digitChar)
  next
    case False
    then show ?thesis
      using "1.IH" by (subst natToString.simps) (simp add: isDigit_digitChar)
  qed
qed

lemma natToString_length_ge: "10 ^ k \<le> n \<Longrightarrow> k < length (natToString n)"
proof (induction k arbitrary: n)
  case 0
  show ?case by (subst natToString.simps) simp
next
  case (Suc k)
  then have "10 \<le> n"
    by (metis One_nat_def le_trans one_le_numeral one_le_power power_Suc mult.right_neutral mult_le_mono2)
  moreover have "10 ^ k \<le> n div 10" using Suc.prems by simp
  ultimately show ?case using Suc.IH [of "n div 10"] by (subst natToString.simps) simp
qed

lemma natToString_length_le: "n < 10 ^ Suc k \<Longrightarrow> length (natToString n) \<le> Suc k"
proof (induction k arbitrary: n)
  case 0
  then show ?case by (subst natToString.simps) simp
next
  case (Suc k)
  show ?case
  proof (cases "n < 10")
    case True
    then show ?thesis by (subst natToString.simps) simp
  next
    case False
    have "n div 10 < 10 ^ Suc k" using Suc.prems by simp
    then show ?thesis using False Suc.IH [of "n div 10"] by (subst natToString.simps) simp
  qed
qed

lemma natToString_length_4: "(length (natToString n) = 4) = (1000 \<le> n \<and> n < 10000)"
proof
  assume l: "length (natToString n) = 4"
  have "1000 \<le> n"
  proof (rule ccontr)
    assume "\<not> 1000 \<le> n"
    then have "n < 10 ^ Suc 2" by simp
    from natToString_length_le [OF this] l show False by simp
  qed
  moreover have "n < 10000"
  proof (rule ccontr)
    assume "\<not> n < 10000"
    then have "10 ^ 4 \<le> n" by simp
    from natToString_length_ge [OF this] l show False by simp
  qed
  ultimately show "1000 \<le> n \<and> n < 10000" by simp
next
  assume a: "1000 \<le> n \<and> n < 10000"
  then have "10 ^ 3 \<le> n" "n < 10 ^ Suc 3" by simp_all
  from natToString_length_ge [OF this(1)] natToString_length_le [OF this(2)]
  show "length (natToString n) = 4" by simp
qed

lemma natToString_nonempty: "natToString n \<noteq> []"
  by (subst natToString.simps) simp

lemma concat_replicate_single: "concat (replicate k [c]) = replicate k c"
  by (induction k) simp_all

lemma padStart_zeroPad: "padStart 2 (js ''0'') (natToString k) = zeroPad 2 k"
  by (simp add: padStart_def zeroPad_def js_def concat_replicate_single)

lemma length_zeroPad_2: "k < 100 \<Longrightarrow> length (zeroPad 2 k) = 2"
proof -
  assume "k < 100"
  then have "k < 10 ^ Suc 1" by simp
  from natToString_length_le [OF this] have "length (natToString k) \<le> 2" by simp
  moreover have "0 < length (natToString k)" using natToString_nonempty [of k] by simp
  ultimately show ?thesis by (simp add: zeroPad_def)
qed

lemma zeroPad_digits: "list_all isDigit (zeroPad w k)"
proof -
  have z: "isDigit (of_char CHR ''0'')" by (simp add: isDigit_def js_def)
  have "\<forall>c \<in> set (natToString k). isDigit c"
    using natToString_digits [of k] by (simp add: list_all_iff)
  with z show ?thesis by (auto simp: zeroPad_def list_all_iff)
qed

lemma getTimestamp_spec: "getTimestamp env = specTimestamp (now env)"
  by (simp add: getTimestamp_def specTimestamp_def Let_def padStart_zeroPad)

lemma timestampForm_parts:
  assumes "length y = 4" "length mo = 2" "length d = 2" "length h = 2" "length mi = 2" "length s = 2"
    and "list_all isDigit y" "list_all isDigit mo" "list_all isDigit d"
    and "list_all isDigit h" "list_all isDigit mi" "list_all isDigit s"
  shows "timestampForm (y @ mo @ d @ js ''_'' @ h @ mi @ s)"
proof -
  have u: "js ''_'' = [of_char CHR ''_'']" by (simp add: js_def)
  have t: "take 8 (y @ mo @ d @ js ''_'' @ h @ mi @ s) = y @ mo @ d"
    using assms(1-3) by simp
  have dr: "drop 9 (y @ mo @ d @ js ''_'' @ h @ mi @ s) = h @ mi @ s"
    using assms(1-3) by (simp add: u)
  have n: "(y @ mo @ d @ js ''_'' @ h @ mi @ s) ! 8 = of_char CHR ''_''"
    using assms(1-3) by (simp add: nth_append u)
  have l: "length (y @ mo @ d @ js ''_'' @ h @ mi @ s) = 15"
    using assms(1-6) by (simp add: u)
  show ?thesis
    unfolding timestampForm_def t dr using n l assms(7-12) by simp
qed

lemma intToString_year:
  assumes "1000 \<le> y" "y \<le> 9999"
  shows "length (intToString y) = 4" and "list_all isDigit (intToString y)"
proof -
  have "1000 \<le> nat y \<and> nat y < 10000" using assms by auto
  then show "length (intToString y) = 4"
    using assms(1) by (simp add: intToString_def natToString_length_4)
  show "list_all isDigit (intToString y)"
    using assms(1) by (simp add: intToString_def natToString_digits)
qed

lemma timestampForm_year:
  assumes f: "month d < 12" "date d \<le> 31" "hours d < 24" "minutes d < 60" "seconds d < 60"
  shows "timestampForm (specTimestamp d) = (1000 \<le> fullYear d \<and> fullYear d \<le> 9999)"
proof
  assume y: "1000 \<le> fullYear d \<and> fullYear d \<le> 9999"
  then have y1: "1000 \<le> fullYear d" and y2: "fullYear d \<le> 9999" by simp_all
  show "timestampForm (specTimestamp d)"
    unfolding specTimestamp_def
    using f
    by (intro timestampForm_parts intToString_year [OF y1 y2] length_zeroPad_2 zeroPad_digits)
       simp_all
next
  assume t: "timestampForm (specTimestamp d)"
  define rest where "rest = zeroPad 2 (month d + 1) @ zeroPad 2 (date d)
     @ js ''_'' @ zeroPad 2 (hours d) @ zeroPad 2 (minutes d) @ zeroPad 2 (seconds d)"
  have lr: "length rest = 11"
    using f by (simp add: rest_def length_zeroPad_2 js_def)
  have ts: "specTimestamp d = intToString (fullYear d) @ rest"
    by (simp add: specTimestamp_def rest_def)
  from t have l: "length (intToString (fullYear d)) = 4"
    by (simp add: timestampForm_def ts lr)
  have dg: "list_all isDigit (intToString (fullYear d))"
  proof -
    from t have "list_all isDigit (take 8 (intToString (fullYear d) @ rest))"
      by (simp add: timestampForm_def ts)
    then show ?thesis using l by simp
  qed
  have nn: "0 \<le> fullYear d"
  proof (rule ccontr)
    assume "\<not> 0 \<le> fullYear d"
    then have "intToString (fullYear d) = js ''-'' @ natToString (nat (- fullYear d))"
      by (simp add: intToString_def)
    with dg show False by (simp add: js_def isDigit_def)
  qed
  then have "length (natToString (nat (fullYear d))) = 4" using l by (simp add: intToString_def)
  then have "1000 \<le> nat (fullYear d) \<and> nat (fullYear d) < 10000"
    by (simp add: natToString_length_4)
  then show "1000 \<le> fullYear d \<and> fullYear d \<le> 9999" using nn by auto
qed

section \<open>Properties of the layout engine\<close>

text \<open>
  Claim C1, as amended. For natural dimensions \<open>nw\<close>, \<open>nh\<close> and a box \<open>mw\<close>,
  \<open>mh\<close> between \<open>2 ^ - 300\<close> and \<open>2 ^ 300\<close>, \<open>calculateImageSize\<close> returns the
  finite numbers \<open>w' = nw * s\<close> and \<open>h' = nh * s\<close>, each product rounded once, where
  \<open>s\<close> is the smaller of the rounded quotients \<open>mw / nw\<close> and \<open>mh / nh\<close>. With
  \<open>u = 2 ^ - 53\<close>, the result is positive, it exceeds the box on neither axis by more than
  the factor \<open>(1 + u)\<^sup>2\<close>, it reaches the box on at least one axis up to the factor
  \<open>(1 - u)\<^sup>2\<close>, and its aspect ratio is that of the original up to the factors
  \<open>(1 - u) / (1 + u)\<close> and \<open>(1 + u) / (1 - u)\<close>.
\<close>

theorem calculateImageSize_fit:
  assumes nw: "inRange 300 nw" and nh: "inRange 300 nh" and mw: "inRange 300 mw" and mh: "inRange 300 mh"
  shows "\<exists>s w' h'.
      jsMin (jsDiv (Finite mw) (Finite nw)) (jsDiv (Finite mh) (Finite nh)) = Finite s
    \<and> calculateImageSize (Finite nw) (Finite nh) (Finite mw) (Finite mh)
        = \<lparr> width = Finite w', height = Finite h' \<rparr>
    \<and> Finite w' = jsMul (Finite nw) (Finite s) \<and> Finite h' = jsMul (Finite nh) (Finite s)
    \<and> 0 < w' \<and> 0 < h'
    \<and> w' \<le> mw * (1 + unitRoundoff)\<^sup>2 \<and> h' \<le> mh * (1 + unitRoundoff)\<^sup>2
    \<and> (mw * (1 - unitRoundoff)\<^sup>2 \<le> w' \<or> mh * (1 - unitRoundoff)\<^sup>2 \<le> h')
    \<and> nw / nh * ((1 - unitRoundoff) / (1 + unitRoundoff)) \<le> w' / h'
    \<and> w' / h' \<le> nw / nh * ((1 + unitRoundoff) / (1 - unitRoundoff))"
proof -
  let ?u = unitRoundoff
  let ?E = "min (mw / nw) (mh / nh)"
  note ub = unitRoundoff_bounds
  have pos: "0 < nw" "0 < nh" "0 < mw" "0 < mh" using assms by (auto dest: inRange_pos)
  have u2: "0 \<le> (1 + ?u)\<^sup>2" "0 \<le> (1 - ?u)\<^sup>2" by simp_all
  from core [OF nw nh mw mh] obtain s w' h' where c:
    "jsMin (jsDiv (Finite mw) (Finite nw)) (jsDiv (Finite mh) (Finite nh)) = Finite s"
    "jsMul (Finite nw) (Finite s) = Finite w'" "jsMul (Finite nh) (Finite s) = Finite h'"
    "?E * (1 - ?u) \<le> s" "s \<le> ?E * (1 + ?u)"
    "nw * s * (1 - ?u) \<le> w'" "w' \<le> nw * s * (1 + ?u)"
    "nh * s * (1 - ?u) \<le> h'" "h' \<le> nh * s * (1 + ?u)" "0 < s"
    by auto
  note m = min_ratio_scaled [OF pos]
  note bw = scaled_bounds [OF pos(1) ub(1,2) m(4) c(4,5) c(6,7)]
  note bh = scaled_bounds [OF pos(2) ub(1,2) m(4) c(4,5) c(8,9)]
  have "nw * ?E * (1 + ?u)\<^sup>2 \<le> mw * (1 + ?u)\<^sup>2" by (rule mult_right_mono [OF m(1) u2(1)])
  with bw(2) have fw: "w' \<le> mw * (1 + ?u)\<^sup>2" by linarith
  have "nh * ?E * (1 + ?u)\<^sup>2 \<le> mh * (1 + ?u)\<^sup>2" by (rule mult_right_mono [OF m(2) u2(1)])
  with bh(2) have fh: "h' \<le> mh * (1 + ?u)\<^sup>2" by linarith
  have tight: "mw * (1 - ?u)\<^sup>2 \<le> w' \<or> mh * (1 - ?u)\<^sup>2 \<le> h'"
    using m(3) bw(1) bh(1) by auto
  note r = ratio_bounds [OF pos(1,2) c(10) ub(1,2) c(6,7) c(8,9)]
  note cs = calculateImageSize_Finite [OF c(1,2,3)]
  show ?thesis
    using c(1) cs c(2) [symmetric] c(3) [symmetric] bw(3) bh(3) fw fh tight r by blast
qed

theorem calculateImageSize_fit_witness:
  "inRange 300 1080 \<and> inRange 300 1350 \<and> inRange 300 1776 \<and> inRange 300 856
   \<and> calculateImageSize (Finite 1080) (Finite 1350) (Finite 1776) (Finite 856)
       = \<lparr> width = Finite (6023564501608039 / 8796093022208), height = Finite (7529455627010049 / 8796093022208) \<rparr>
   \<and> (6023564501608039 / 8796093022208) \<le> 1776 * (1 + unitRoundoff)\<^sup>2
   \<and> (7529455627010049 / 8796093022208) \<le> 856 * (1 + unitRoundoff)\<^sup>2
   \<and> (1776 * (1 - unitRoundoff)\<^sup>2 \<le> 6023564501608039 / 8796093022208
        \<or> 856 * (1 - unitRoundoff)\<^sup>2 \<le> 7529455627010049 / 8796093022208)
   \<and> 1080 / 1350 * ((1 - unitRoundoff) / (1 + unitRoundoff)) \<le> (6023564501608039 / 8796093022208) / (7529455627010049 / 8796093022208)
   \<and> (6023564501608039 / 8796093022208) / (7529455627010049 / 8796093022208) \<le> 1080 / 1350 * ((1 + unitRoundoff) / (1 - unitRoundoff))"
proof -
  have r: "inRange 300 1080" "inRange 300 1350" "inRange 300 1776" "inRange 300 856"
    by (simp_all add: inRange_def)
  from calculateImageSize_fit [OF r] obtain w' h' where c:
    "calculateImageSize (Finite 1080) (Finite 1350) (Finite 1776) (Finite 856)
       = \<lparr> width = Finite w', height = Finite h' \<rparr>"
    "w' \<le> 1776 * (1 + unitRoundoff)\<^sup>2" "h' \<le> 856 * (1 + unitRoundoff)\<^sup>2"
    "1776 * (1 - unitRoundoff)\<^sup>2 \<le> w' \<or> 856 * (1 - unitRoundoff)\<^sup>2 \<le> h'"
    "1080 / 1350 * ((1 - unitRoundoff) / (1 + unitRoundoff)) \<le> w' / h'"
    "w' / h' \<le> 1080 / 1350 * ((1 + unitRoundoff) / (1 - unitRoundoff))"
    by blast
  from c(1) have w: "w' = 6023564501608039 / 8796093022208" and h: "h' = 7529455627010049 / 8796093022208"
    by (simp_all add: calculateImageSize_1080_1350)
  show ?thesis
    using r c(2-6) unfolding w h by (simp only: calculateImageSize_1080_1350 simp_thms)
qed

text \<open>
  The claim as stated, with exact bounds and equalities, fails on the machine: a 1080 by
  1350 image in the box 1776 by 856 gets the size 684.8000000000001 by 856.0000000000001.
  The height exceeds the box, neither dimension equals its bound, and the aspect ratio is
  not \<open>1080 / 1350\<close>.
\<close>

theorem calculateImageSize_fit_counterexample:
  "calculateImageSize (Finite 1080) (Finite 1350) (Finite 1776) (Finite 856)
     = \<lparr> width = Finite (6023564501608039 / 8796093022208), height = Finite (7529455627010049 / 8796093022208) \<rparr>
   \<and> \<not> jsLessEq (height (calculateImageSize (Finite 1080) (Finite 1350) (Finite 1776) (Finite 856)))
                 (Finite 856)
   \<and> width (calculateImageSize (Finite 1080) (Finite 1350) (Finite 1776) (Finite 856)) \<noteq> Finite 1776
   \<and> height (calculateImageSize (Finite 1080) (Finite 1350) (Finite 1776) (Finite 856)) \<noteq> Finite 856
   \<and> (6023564501608039 / 8796093022208) / (7529455627010049 / 8796093022208) \<noteq> (1080 / 1350 :: real)"
  by (simp add: calculateImageSize_1080_1350)

text \<open>
  Claim C9, as amended. For natural dimensions and a box between \<open>2 ^ - 100\<close> and
  \<open>2 ^ 100\<close>, applying \<open>calculateImageSize\<close> to its own output with the same box
  returns finite numbers that differ from that output by at most the factors
  \<open>((1 - u) / (1 + u))\<^sup>2\<close> and \<open>((1 + u) / (1 - u))\<^sup>2\<close>, with \<open>u = 2 ^ - 53\<close>.
\<close>

theorem calculateImageSize_idempotent:
  assumes nw: "inRange 100 nw" and nh: "inRange 100 nh" and mw: "inRange 100 mw" and mh: "inRange 100 mh"
  shows "\<exists>w' h' w'' h''.
      calculateImageSize (Finite nw) (Finite nh) (Finite mw) (Finite mh)
        = \<lparr> width = Finite w', height = Finite h' \<rparr>
    \<and> calculateImageSize (Finite w') (Finite h') (Finite mw) (Finite mh)
        = \<lparr> width = Finite w'', height = Finite h'' \<rparr>
    \<and> 0 < w' \<and> 0 < h'
    \<and> w' * ((1 - unitRoundoff) / (1 + unitRoundoff))\<^sup>2 \<le> w''
    \<and> w'' \<le> w' * ((1 + unitRoundoff) / (1 - unitRoundoff))\<^sup>2
    \<and> h' * ((1 - unitRoundoff) / (1 + unitRoundoff))\<^sup>2 \<le> h''
    \<and> h'' \<le> h' * ((1 + unitRoundoff) / (1 - unitRoundoff))\<^sup>2"
proof -
  let ?u = unitRoundoff
  let ?E = "min (mw / nw) (mh / nh)"
  note ub = unitRoundoff_bounds
  have pos: "0 < nw" "0 < nh" "0 < mw" "0 < mh" using assms by (auto dest: inRange_pos)
  have p1: "0 < (1 - ?u)\<^sup>2" and p2: "0 < (1 + ?u)\<^sup>2" using ub by simp_all
  from core [OF nw nh mw mh] obtain s w' h' where c:
    "jsMin (jsDiv (Finite mw) (Finite nw)) (jsDiv (Finite mh) (Finite nh)) = Finite s"
    "jsMul (Finite nw) (Finite s) = Finite w'" "jsMul (Finite nh) (Finite s) = Finite h'"
    "?E * (1 - ?u) \<le> s" "s \<le> ?E * (1 + ?u)"
    "nw * s * (1 - ?u) \<le> w'" "w' \<le> nw * s * (1 + ?u)"
    "nh * s * (1 - ?u) \<le> h'" "h' \<le> nh * s * (1 + ?u)" "0 < s"
    "inRange (2 * 100 + 100 + 2) w'" "inRange (2 * 100 + 100 + 2) h'"
    by auto
  note m = min_ratio_scaled [OF pos]
  note bw = scaled_bounds [OF pos(1) ub(1,2) m(4) c(4,5) c(6,7)]
  note bh = scaled_bounds [OF pos(2) ub(1,2) m(4) c(4,5) c(8,9)]
  have "nw * ?E * (1 + ?u)\<^sup>2 \<le> mw * (1 + ?u)\<^sup>2" by (rule mult_right_mono) (use m(1) p2 in simp_all)
  with bw(2) have fw: "w' \<le> mw * (1 + ?u)\<^sup>2" by linarith
  have "nh * ?E * (1 + ?u)\<^sup>2 \<le> mh * (1 + ?u)\<^sup>2" by (rule mult_right_mono) (use m(2) p2 in simp_all)
  with bh(2) have fh: "h' \<le> mh * (1 + ?u)\<^sup>2" by linarith
  have tight: "mw * (1 - ?u)\<^sup>2 \<le> w' \<or> mh * (1 - ?u)\<^sup>2 \<le> h'"
    using m(3) bw(1) bh(1) by auto
  have rw: "inRange 302 w'" and rh: "inRange 302 h'" using c(11,12) by simp_all
  let ?E2 = "min (mw / w') (mh / h')"
  from core [OF rw rh mw mh] obtain s2 w'' h'' where d:
    "jsMin (jsDiv (Finite mw) (Finite w')) (jsDiv (Finite mh) (Finite h')) = Finite s2"
    "jsMul (Finite w') (Finite s2) = Finite w''" "jsMul (Finite h') (Finite s2) = Finite h''"
    "?E2 * (1 - ?u) \<le> s2" "s2 \<le> ?E2 * (1 + ?u)"
    "w' * s2 * (1 - ?u) \<le> w''" "w'' \<le> w' * s2 * (1 + ?u)"
    "h' * s2 * (1 - ?u) \<le> h''" "h'' \<le> h' * s2 * (1 + ?u)"
    by auto
  have lw: "1 / (1 + ?u)\<^sup>2 \<le> mw / w'" by (rule inverse_bound_lower [OF bw(3) p2 fw])
  have lh: "1 / (1 + ?u)\<^sup>2 \<le> mh / h'" by (rule inverse_bound_lower [OF bh(3) p2 fh])
  have E2lo: "1 / (1 + ?u)\<^sup>2 \<le> ?E2" using lw lh by simp
  have E2hi: "?E2 \<le> 1 / (1 - ?u)\<^sup>2"
  proof -
    from tight show ?thesis
    proof
      assume "mw * (1 - ?u)\<^sup>2 \<le> w'"
      then have "mw / w' \<le> 1 / (1 - ?u)\<^sup>2" by (rule inverse_bound_upper [OF bw(3) p1])
      then show ?thesis by (simp add: min_le_iff_disj)
    next
      assume "mh * (1 - ?u)\<^sup>2 \<le> h'"
      then have "mh / h' \<le> 1 / (1 - ?u)\<^sup>2" by (rule inverse_bound_upper [OF bh(3) p1])
      then show ?thesis by (simp add: min_le_iff_disj)
    qed
  qed
  note sw = second_pass_bounds [OF bw(3) ub(1,2) E2lo E2hi d(4,5) d(6,7)]
  note sh = second_pass_bounds [OF bh(3) ub(1,2) E2lo E2hi d(4,5) d(8,9)]
  note c1 = calculateImageSize_Finite [OF c(1,2,3)]
  note c2 = calculateImageSize_Finite [OF d(1,2,3)]
  show ?thesis using c1 c2 bw(3) bh(3) sw sh by blast
qed

theorem calculateImageSize_idempotent_witness:
  "inRange 100 1080 \<and> inRange 100 1350 \<and> inRange 100 1776 \<and> inRange 100 856
   \<and> calculateImageSize (Finite 1080) (Finite 1350) (Finite 1776) (Finite 856)
       = \<lparr> width = Finite (6023564501608039 / 8796093022208), height = Finite (7529455627010049 / 8796093022208) \<rparr>
   \<and> calculateImageSize (Finite (6023564501608039 / 8796093022208)) (Finite (7529455627010049 / 8796093022208)) (Finite 1776) (Finite 856)
       = \<lparr> width = Finite (3011782250804019 / 4398046511104), height = Finite 856 \<rparr>
   \<and> (6023564501608039 / 8796093022208) * ((1 - unitRoundoff) / (1 + unitRoundoff))\<^sup>2 \<le> 3011782250804019 / 4398046511104
   \<and> (3011782250804019 / 4398046511104) \<le> (6023564501608039 / 8796093022208) * ((1 + unitRoundoff) / (1 - unitRoundoff))\<^sup>2
   \<and> (7529455627010049 / 8796093022208) * ((1 - unitRoundoff) / (1 + unitRoundoff))\<^sup>2 \<le> 856
   \<and> 856 \<le> (7529455627010049 / 8796093022208) * ((1 + unitRoundoff) / (1 - unitRoundoff))\<^sup>2"
proof -
  have r: "inRange 100 1080" "inRange 100 1350" "inRange 100 1776" "inRange 100 856"
    by (simp_all add: inRange_def)
  from calculateImageSize_idempotent [OF r] obtain w' h' w'' h'' where c:
    "calculateImageSize (Finite 1080) (Finite 1350) (Finite 1776) (Finite 856)
       = \<lparr> width = Finite w', height = Finite h' \<rparr>"
    "calculateImageSize (Finite w') (Finite h') (Finite 1776) (Finite 856)
       = \<lparr> width = Finite w'', height = Finite h'' \<rparr>"
    "w' * ((1 - unitRoundoff) / (1 + unitRoundoff))\<^sup>2 \<le> w''"
    "w'' \<le> w' * ((1 + unitRoundoff) / (1 - unitRoundoff))\<^sup>2"
    "h' * ((1 - unitRoundoff) / (1 + unitRoundoff))\<^sup>2 \<le> h''"
    "h'' \<le> h' * ((1 + unitRoundoff) / (1 - unitRoundoff))\<^sup>2"
    by blast
  from c(1) have w: "w' = 6023564501608039 / 8796093022208" and h: "h' = 7529455627010049 / 8796093022208"
    by (simp_all add: calculateImageSize_1080_1350)
  from c(2) have w2: "w'' = 3011782250804019 / 4398046511104" and h2: "h'' = 856"
    unfolding w h by (simp_all add: calculateImageSize_again)
  show ?thesis
    using r c(3-6) unfolding w h w2 h2
    by (simp only: calculateImageSize_1080_1350 calculateImageSize_again simp_thms)
qed

text \<open>
  The claim as stated fails on the machine: for the 1080 by 1350 image the output is
  684.8000000000001 by 856.0000000000001, and applying the function to it gives 684.8 by
  856.
\<close>

theorem calculateImageSize_idempotent_counterexample:
  "calculateImageSize
     (width (calculateImageSize (Finite 1080) (Finite 1350) (Finite 1776) (Finite 856)))
     (height (calculateImageSize (Finite 1080) (Finite 1350) (Finite 1776) (Finite 856)))
     (Finite 1776) (Finite 856)
     = \<lparr> width = Finite (3011782250804019 / 4398046511104), height = Finite 856 \<rparr>
   \<and> calculateImageSize
       (width (calculateImageSize (Finite 1080) (Finite 1350) (Finite 1776) (Finite 856)))
       (height (calculateImageSize (Finite 1080) (Finite 1350) (Finite 1776) (Finite 856)))
       (Finite 1776) (Finite 856)
     \<noteq> calculateImageSize (Finite 1080) (Finite 1350) (Finite 1776) (Finite 856)"
  by (simp add: calculateImageSize_1080_1350 calculateImageSize_again)





section \<open>Evaluation of concrete runs\<close>

lemmas run_defs = createPdfSlideshow_def processImages.simps imageIteration_def addImageSlide_def
  getImageDimensions_def addTitleSlide_def Let_def
  truthyString_def truthyOptString_def truthyOptNumber_def truthyNumber_def
  emit_def logLine_def fileAccess_def emptyState_def
  MARGIN_def PAGE_WIDTH_def PAGE_HEIGHT_def CAPTION_FONT_SIZE_def TITLE_FONT_SIZE_def FONT_def
  js_def machine_evals

lemmas iteration_defs = iterationDoc_def iterationConsole_def iterationFileio_def slideDoc_def
  titleDoc_def validReadable_def noDimension_def present_def opens_def breaksOf_def

lemma layout_values:
  "jsSub PAGE_WIDTH (jsMul (Finite 2) MARGIN) = Finite 1776"
  "jsSub (jsSub PAGE_HEIGHT (jsMul (Finite 2) MARGIN)) (Finite 80) = Finite 856"
  "jsDiv PAGE_HEIGHT (Finite 2) = Finite 540"
  "jsSub (jsDiv PAGE_HEIGHT (Finite 2)) (Finite 80) = Finite 460"
  "jsSub (jsDiv PAGE_HEIGHT (Finite 2)) (Finite 50) = Finite 490"
  "jsSub (jsDiv PAGE_HEIGHT (Finite 2)) (Finite 20) = Finite 520"
  by (simp_all add: MARGIN_def PAGE_WIDTH_def PAGE_HEIGHT_def machine_evals
        del: jsDiv.simps jsMul.simps jsAdd.simps)

section \<open>Title slide and image slide layout\<close>

text \<open>
  Claim C7. The title slide has fixed offsets from the vertical centre of the canvas,
  \<open>PAGE_HEIGHT / 2 = 540\<close>: the title is drawn at centre \<open>- 80\<close>, which is 460, when
  a subtitle is present (a non-empty string) and at centre \<open>- 50\<close>, which is 490, when
  it is absent; the subtitle is drawn at centre \<open>- 20\<close>, which is 520. So the title is
  higher on the page with a subtitle than without. Both lines start at the left margin,
  span the canvas width minus two margins, which is 1776, and are centred. All of these
  values are computed without rounding.
\<close>

theorem addTitleSlide_layout:
  "doc (addTitleSlide ttl sub st) =
     doc st
     @ DrawText TITLE_FONT_SIZE FONT ttl MARGIN
         (if truthyOptString sub then jsSub (jsDiv PAGE_HEIGHT (Finite 2)) (Finite 80)
          else jsSub (jsDiv PAGE_HEIGHT (Finite 2)) (Finite 50))
         \<lparr> textWidth = jsSub PAGE_WIDTH (jsMul (Finite 2) MARGIN), textAlign = js ''center'' \<rparr>
     # (case sub of
          None \<Rightarrow> []
        | Some s \<Rightarrow>
            if s \<noteq> []
            then [DrawText TITLE_FONT_SIZE FONT s MARGIN
                    (jsSub (jsDiv PAGE_HEIGHT (Finite 2)) (Finite 20))
                    \<lparr> textWidth = jsSub PAGE_WIDTH (jsMul (Finite 2) MARGIN),
                      textAlign = js ''center'' \<rparr>]
            else [])
   \<and> jsDiv PAGE_HEIGHT (Finite 2) = Finite 540
   \<and> jsSub (jsDiv PAGE_HEIGHT (Finite 2)) (Finite 80) = Finite 460
   \<and> jsSub (jsDiv PAGE_HEIGHT (Finite 2)) (Finite 50) = Finite 490
   \<and> jsSub (jsDiv PAGE_HEIGHT (Finite 2)) (Finite 20) = Finite 520
   \<and> jsSub PAGE_WIDTH (jsMul (Finite 2) MARGIN) = Finite 1776
   \<and> (s \<noteq> [] \<longrightarrow>
        jsLess (textY (hd (doc (addTitleSlide ttl (Some s) emptyState))))
               (textY (hd (doc (addTitleSlide ttl None emptyState))))
      \<and> jsLess (textY (hd (doc (addTitleSlide ttl (Some s) emptyState))))
               (textY (hd (doc (addTitleSlide ttl (Some []) emptyState)))))"
proof -
  have d: "doc (addTitleSlide ttl sub st) =
     doc st
     @ DrawText TITLE_FONT_SIZE FONT ttl MARGIN
         (if truthyOptString sub then jsSub (jsDiv PAGE_HEIGHT (Finite 2)) (Finite 80)
          else jsSub (jsDiv PAGE_HEIGHT (Finite 2)) (Finite 50))
         \<lparr> textWidth = jsSub PAGE_WIDTH (jsMul (Finite 2) MARGIN), textAlign = js ''center'' \<rparr>
     # (case sub of
          None \<Rightarrow> []
        | Some s \<Rightarrow>
            if s \<noteq> []
            then [DrawText TITLE_FONT_SIZE FONT s MARGIN
                    (jsSub (jsDiv PAGE_HEIGHT (Finite 2)) (Finite 20))
                    \<lparr> textWidth = jsSub PAGE_WIDTH (jsMul (Finite 2) MARGIN),
                      textAlign = js ''center'' \<rparr>]
            else [])" for sub st
    by (simp add: addTitleSlide_def Let_def truthyString_def split: option.splits)
  have o: "jsLess (textY (hd (doc (addTitleSlide ttl (Some s) emptyState))))
               (textY (hd (doc (addTitleSlide ttl None emptyState))))
      \<and> jsLess (textY (hd (doc (addTitleSlide ttl (Some s) emptyState))))
               (textY (hd (doc (addTitleSlide ttl (Some []) emptyState))))" if "s \<noteq> []"
    using that unfolding d
    by (simp add: truthyOptString_def truthyString_def PAGE_HEIGHT_def machine_evals
          del: jsDiv.simps jsMul.simps jsAdd.simps)
  show ?thesis using d [of sub st] o layout_values by blast
qed

theorem addTitleSlide_layout_witness:
  "js ''2024'' \<noteq> []
   \<and> doc (addTitleSlide (js ''My Trip!'') (Some (js ''2024'')) emptyState) =
       [DrawText (Finite 48) (js ''Helvetica'') (js ''My Trip!'') (Finite 72) (Finite 460)
          \<lparr> textWidth = Finite 1776, textAlign = js ''center'' \<rparr>,
        DrawText (Finite 48) (js ''Helvetica'') (js ''2024'') (Finite 72) (Finite 520)
          \<lparr> textWidth = Finite 1776, textAlign = js ''center'' \<rparr>]
   \<and> doc (addTitleSlide (js ''My Trip!'') None emptyState) =
       [DrawText (Finite 48) (js ''Helvetica'') (js ''My Trip!'') (Finite 72) (Finite 490)
          \<lparr> textWidth = Finite 1776, textAlign = js ''center'' \<rparr>]
   \<and> jsLess (textY (hd (doc (addTitleSlide (js ''My Trip!'') (Some (js ''2024'')) emptyState))))
            (textY (hd (doc (addTitleSlide (js ''My Trip!'') None emptyState))))"
proof -
  have ne: "js ''2024'' \<noteq> []" by (simp add: js_def)
  note a = addTitleSlide_layout [of "js ''My Trip!''" "Some (js ''2024'')" emptyState "js ''2024''"]
  note b = addTitleSlide_layout [of "js ''My Trip!''" None emptyState "js ''2024''"]
  have v: "jsSub (jsDiv PAGE_HEIGHT (Finite 2)) (Finite 80) = Finite 460"
    "jsSub (jsDiv PAGE_HEIGHT (Finite 2)) (Finite 50) = Finite 490"
    "jsSub (jsDiv PAGE_HEIGHT (Finite 2)) (Finite 20) = Finite 520"
    "jsSub PAGE_WIDTH (jsMul (Finite 2) MARGIN) = Finite 1776"
    using a by blast+
  have d1: "doc (addTitleSlide (js ''My Trip!'') (Some (js ''2024'')) emptyState) =
       [DrawText (Finite 48) (js ''Helvetica'') (js ''My Trip!'') (Finite 72) (Finite 460)
          \<lparr> textWidth = Finite 1776, textAlign = js ''center'' \<rparr>,
        DrawText (Finite 48) (js ''Helvetica'') (js ''2024'') (Finite 72) (Finite 520)
          \<lparr> textWidth = Finite 1776, textAlign = js ''center'' \<rparr>]"
    using a [THEN conjunct1] ne unfolding v
    by (simp add: truthyOptString_def truthyString_def TITLE_FONT_SIZE_def FONT_def MARGIN_def)
  have d2: "doc (addTitleSlide (js ''My Trip!'') None emptyState) =
       [DrawText (Finite 48) (js ''Helvetica'') (js ''My Trip!'') (Finite 72) (Finite 490)
          \<lparr> textWidth = Finite 1776, textAlign = js ''center'' \<rparr>]"
    using b [THEN conjunct1] unfolding v
    by (simp add: truthyOptString_def TITLE_FONT_SIZE_def FONT_def MARGIN_def)
  have o: "jsLess (textY (hd (doc (addTitleSlide (js ''My Trip!'') (Some (js ''2024'')) emptyState))))
            (textY (hd (doc (addTitleSlide (js ''My Trip!'') None emptyState))))"
    using a ne by blast
  show ?thesis using ne d1 d2 o by (simp only: simp_thms)
qed

lemma fitted_height_bound:
  assumes w: "inRange 100 w" and h: "inRange 100 h"
  shows "\<exists>h'. jsMul (Finite h) (jsMin (jsDiv (Finite 1776) (Finite w)) (jsDiv (Finite 856) (Finite h)))
               = Finite h'
             \<and> 0 < h' \<and> h' \<le> 856 * (1 + unitRoundoff)\<^sup>2"
proof -
  let ?u = unitRoundoff
  let ?E = "min (1776 / w) (856 / h)"
  note ub = unitRoundoff_bounds
  have b: "inRange 100 1776" "inRange 100 856" by (simp_all add: inRange_def)
  have pos: "0 < w" "0 < h" "(0::real) < 1776" "(0::real) < 856"
    using w h by (auto dest: inRange_pos)
  from core [OF w h b] obtain s w' h' where c:
    "jsMin (jsDiv (Finite 1776) (Finite w)) (jsDiv (Finite 856) (Finite h)) = Finite s"
    "jsMul (Finite h) (Finite s) = Finite h'"
    "?E * (1 - ?u) \<le> s" "s \<le> ?E * (1 + ?u)"
    "h * s * (1 - ?u) \<le> h'" "h' \<le> h * s * (1 + ?u)"
    by auto
  note m = min_ratio_scaled [OF pos]
  note bh = scaled_bounds [OF pos(2) ub(1,2) m(4) c(3,4) c(5,6)]
  have "h * ?E * (1 + ?u)\<^sup>2 \<le> 856 * (1 + ?u)\<^sup>2"
    by (rule mult_right_mono) (use m(2) in simp_all)
  with bh(2) have "h' \<le> 856 * (1 + ?u)\<^sup>2" by linarith
  with c(2) bh(3) show ?thesis unfolding c(1) by blast
qed

lemma caption_offset_bound:
  assumes p: "0 < h'" and b: "h' \<le> 856 * (1 + unitRoundoff)\<^sup>2"
  shows "\<exists>y. jsAdd (jsAdd (Finite 72) (Finite h')) (Finite 30) = Finite y
             \<and> \<bar>y - (72 + h' + 30)\<bar> \<le> 1 / 2 ^ 42"
proof -
  let ?u = unitRoundoff
  have u: "?u = 1 / 2 ^ 53" by (simp add: unitRoundoff_def)
  have "856 * (1 + ?u)\<^sup>2 \<le> (857::real)" by (simp add: u power2_eq_square)
  with b have hb: "h' \<le> 857" by linarith
  define x where "x = 72 + h'"
  have xb: "72 \<le> x" "x \<le> 929" using p hb by (simp_all add: x_def)
  have rx: "inRange 10 x" using xb by (simp add: inRange_def)
  from round64_range [OF rx] obtain y1 where y1: "round64 x = Finite y1"
    "x * (1 - ?u) \<le> y1" "y1 \<le> x * (1 + ?u)"
    by auto
  have xu: "0 \<le> x * ?u" "x * ?u \<le> 929 * ?u"
    using xb by (simp_all add: u)
  have d1: "\<bar>y1 - x\<bar> \<le> 929 * ?u"
    using y1(2,3) xu by (simp add: algebra_simps abs_le_iff)
  have "929 * ?u \<le> 1" by (simp add: u)
  with d1 xb have y1b: "71 \<le> y1" "y1 \<le> 930" by (simp_all add: abs_le_iff)
  define x2 where "x2 = y1 + 30"
  have x2b: "101 \<le> x2" "x2 \<le> 960" using y1b by (simp_all add: x2_def)
  have rx2: "inRange 10 x2" using x2b by (simp add: inRange_def)
  from round64_range [OF rx2] obtain y where y: "round64 x2 = Finite y"
    "x2 * (1 - ?u) \<le> y" "y \<le> x2 * (1 + ?u)"
    by auto
  have x2u: "0 \<le> x2 * ?u" "x2 * ?u \<le> 960 * ?u"
    using x2b by (simp_all add: u)
  have d2: "\<bar>y - x2\<bar> \<le> 960 * ?u"
    using y(2,3) x2u by (simp add: algebra_simps abs_le_iff)
  have "\<bar>y - (x + 30)\<bar> \<le> \<bar>y - x2\<bar> + \<bar>y1 - x\<bar>" by (simp add: x2_def)
  also have "\<dots> \<le> 960 * ?u + 929 * ?u" using d1 d2 by simp
  also have "\<dots> \<le> 1 / 2 ^ 42" by (simp add: u)
  finally have d: "\<bar>y - (72 + h' + 30)\<bar> \<le> 1 / 2 ^ 42" by (simp add: x_def)
  have "jsAdd (jsAdd (Finite 72) (Finite h')) (Finite 30) = Finite y"
    using y1(1) y(1) by (simp add: x_def x2_def)
  with d show ?thesis by blast
qed




section \<open>The entry point\<close>

text \<open>
  Claim C4. When the list of images is empty, \<open>main\<close> exits with code 1 after the banner
  and the error message: no file is tested, read, opened or written.
\<close>

theorem main_empty_images:
  assumes "images SLIDESHOW = []"
  shows "main env SLIDESHOW =
           \<lparr> exitCode = 1,
             final = \<lparr> doc = [], console = [LogBanner, LogBannerRule, ErrorNoImages],
                       fileio = [], written = [], pendingError = None \<rparr> \<rparr>"
  using assms by (simp add: main_def Let_def logLine_def emptyState_def)

theorem main_empty_images_witness:
  "images \<lparr> title = js ''My Trip!'', subtitle = js ''2024'', images = [] \<rparr> = []
   \<and> exitCode (main sampleEnv \<lparr> title = js ''My Trip!'', subtitle = js ''2024'', images = [] \<rparr>) = 1
   \<and> fileio (final (main sampleEnv
                        \<lparr> title = js ''My Trip!'', subtitle = js ''2024'', images = [] \<rparr>)) = []
   \<and> written (final (main sampleEnv
                         \<lparr> title = js ''My Trip!'', subtitle = js ''2024'', images = [] \<rparr>)) = []"
  using main_empty_images
          [of "\<lparr> title = js ''My Trip!'', subtitle = js ''2024'', images = [] \<rparr>" sampleEnv]
  by simp

section \<open>Page sequencing and failure handling\<close>

text \<open>
  Claim C2. The specification says that an image whose file exists but whose dimensions
  cannot be read consumes no page. The run below has such an image at index 0, followed by a
  readable one, and no title: both errors are logged, but the page break after index 0 is still
  emitted, so the first page of the output is blank and the readable image is on the second.
\<close>

theorem unreadable_image_leaves_blank_page:
  "createPdfSlideshow sampleEnv brokenFirstConfig (js ''out.pdf'') emptyState =
     (Returned True,
      \<lparr> doc = [AddPage,
                DrawImage (js ''a.jpg'') (Finite 72) (Finite 72)
                  \<lparr> fit = (Finite 1776, Finite 856),
                    align = js ''center'', valign = js ''center'' \<rparr>],
        console = [ErrorReadingImage (js ''broken.png'')
                     (LibraryError (js ''Input file contains unsupported image format'')),
                   ErrorAddingImageSlide (js ''broken.png'')
                     (CouldNotGetDimensionsFor (js ''broken.png'')),
                   LogPdfCreated (js ''out.pdf'')],
        fileio = [CreateWriteStream (js ''./dist/out.pdf''), ExistsSync (js ''broken.png''),
                  ReadMetadata (js ''broken.png''), ExistsSync (js ''a.jpg''),
                  ReadMetadata (js ''a.jpg''), ReadImage (js ''a.jpg'')],
        written = [(js ''./dist/out.pdf'',
                    [AddPage,
                     DrawImage (js ''a.jpg'') (Finite 72) (Finite 72)
                       \<lparr> fit = (Finite 1776, Finite 856),
                         align = js ''center'', valign = js ''center'' \<rparr>])],
        pendingError = None \<rparr>)
   \<and> pagesOf sampleEnv
       (doc (snd (createPdfSlideshow sampleEnv brokenFirstConfig (js ''out.pdf'') emptyState))) =
       [[],
        [DrawImage (js ''a.jpg'') (Finite 72) (Finite 72)
           \<lparr> fit = (Finite 1776, Finite 856), align = js ''center'', valign = js ''center'' \<rparr>]]"
  by (simp add: run_defs sampleEnv_def brokenFirstConfig_def
        del: jsDiv.simps jsMul.simps jsAdd.simps)

end
